theory Spec2Isabelle
  imports Main "HOL-Library.AList" "HOL-Library.Sublist"
begin

section \<open>The session pool of the agent container server\<close>

text \<open>
  The server keeps two module-level maps: \<open>sessionPool\<close>, a JavaScript \<open>Map\<close> from
  session key to a \<open>PooledSession\<close> object, and \<open>sessionKeyMap\<close>, a \<open>Map\<close> from
  \<open>PooledSession\<close> objects (by identity) to the key they are tracked under.
  Both maps and every request hold references to the same mutable objects, so the
  objects live in an explicit store indexed by a reference. A JavaScript \<open>Map\<close>
  iterates in insertion order, \<open>set\<close> on a present key replaces the value in place
  and on an absent key appends, \<open>delete\<close> removes the key: an association list
  with \<open>AList.update\<close> and \<open>AList.delete\<close>.
\<close>

type_synonym ref = nat
type_synonym handle = nat

record PooledSession =
  session :: handle
  sessionId :: string
  createdAt :: int
  lastUsed :: int
  inUse :: bool

record pool_state =
  heap :: "ref \<Rightarrow> PooledSession"
  nextRef :: ref
  sessionPool :: "(string \<times> ref) list"
  sessionKeyMap :: "ref \<rightharpoonup> string"

text \<open>
  What one call of \<open>prewarmSession\<close> gets from outside: the handle made by
  \<open>unstable_v2_createSession\<close> (\<open>None\<close> when it throws), the random UUID, and
  the two clock readings stored as \<open>createdAt\<close> and \<open>lastUsed\<close>.
\<close>

record creation =
  created_handle :: "handle option"
  uuid :: string
  t_createdAt :: int
  t_lastUsed :: int

definition prewarmSession :: "creation \<Rightarrow> PooledSession option" where
  "prewarmSession c =
     (case created_handle c of
        None \<Rightarrow> None
      | Some h \<Rightarrow>
          Some \<lparr>session = h, sessionId = ''prewarm-'' @ uuid c,
                createdAt = t_createdAt c, lastUsed = t_lastUsed c, inUse = False\<rparr>)"

text \<open>
  The first branch of \<open>getSession\<close>: \<open>userSessionId && sessionPool.has(userSessionId)\<close>
  and the entry found is not in use. An absent or empty key is falsy.
\<close>

definition reusable :: "string option \<Rightarrow> pool_state \<Rightarrow> ref option" where
  "reusable userSessionId s =
     (case userSessionId of
        None \<Rightarrow> None
      | Some k \<Rightarrow>
          if k = [] then None
          else (case map_of (sessionPool s) k of
                  None \<Rightarrow> None
                | Some r \<Rightarrow> if inUse (heap s r) then None else Some r))"

text \<open>The scan \<open>for (const [id, pooled] of sessionPool.entries())\<close> for a free entry.\<close>

fun find_available :: "(ref \<Rightarrow> PooledSession) \<Rightarrow> (string \<times> ref) list \<Rightarrow> (string \<times> ref) option" where
  "find_available h [] = None"
| "find_available h ((k, r) # rest) =
     (if \<not> inUse (h r) then Some (k, r) else find_available h rest)"

definition mark_in_use :: "ref \<Rightarrow> int \<Rightarrow> pool_state \<Rightarrow> pool_state" where
  "mark_in_use r now s = s\<lparr>heap := (heap s)(r := (heap s r)\<lparr>lastUsed := now, inUse := True\<rparr>)\<rparr>"

definition getSession :: "string option \<Rightarrow> int \<Rightarrow> creation \<Rightarrow> pool_state \<Rightarrow> ref option \<times> pool_state" where
  "getSession userSessionId now c s =
     (case reusable userSessionId s of
        Some r \<Rightarrow> (Some r, mark_in_use r now s)
      | None \<Rightarrow>
          (case find_available (heap s) (sessionPool s) of
             Some (k, r) \<Rightarrow>
               (Some r, (mark_in_use r now s)\<lparr>sessionKeyMap := (sessionKeyMap s)(r \<mapsto> k)\<rparr>)
           | None \<Rightarrow>
               (case prewarmSession c of
                  None \<Rightarrow> (None, s)
                | Some p \<Rightarrow>
                    (Some (nextRef s),
                     s\<lparr>heap := (heap s)(nextRef s := p),
                       nextRef := Suc (nextRef s),
                       sessionPool := AList.update (sessionId p) (nextRef s) (sessionPool s),
                       sessionKeyMap := (sessionKeyMap s)(nextRef s \<mapsto> sessionId p)\<rparr>))))"

definition updateSessionKey :: "ref \<Rightarrow> string \<Rightarrow> pool_state \<Rightarrow> pool_state" where
  "updateSessionKey r newSessionId s =
     (let s1 =
        (case sessionKeyMap s r of
           None \<Rightarrow> s
         | Some oldKey \<Rightarrow>
             if oldKey \<noteq> [] \<and> oldKey \<noteq> newSessionId
             then s\<lparr>sessionPool := AList.update newSessionId r (AList.delete oldKey (sessionPool s)),
                    sessionKeyMap := (sessionKeyMap s)(r \<mapsto> newSessionId)\<rparr>
             else s)
      in s1\<lparr>heap := (heap s1)(r := (heap s1 r)\<lparr>sessionId := newSessionId\<rparr>)\<rparr>)"

definition releaseSession :: "ref \<Rightarrow> int \<Rightarrow> pool_state \<Rightarrow> pool_state" where
  "releaseSession r now s = s\<lparr>heap := (heap s)(r := (heap s r)\<lparr>lastUsed := now, inUse := False\<rparr>)\<rparr>"

text \<open>
  The eviction loop of \<open>cleanupSessions\<close>. \<open>closeThrows h\<close> says whether
  \<open>session.close()\<close> throws on handle \<open>h\<close>; the throw is caught inside the loop
  body, after which the two deletes of that iteration have not run. The second
  component lists the handles on which \<open>close\<close> was called, in order.
\<close>

fun evict :: "int \<Rightarrow> int \<Rightarrow> (handle \<Rightarrow> bool) \<Rightarrow> (string \<times> ref) list \<Rightarrow> pool_state \<Rightarrow> pool_state \<times> handle list" where
  "evict now timeout closeThrows [] s = (s, [])"
| "evict now timeout closeThrows ((k, r) # rest) s =
     (if now - lastUsed (heap s r) > timeout
      then (if closeThrows (session (heap s r))
            then (case evict now timeout closeThrows rest s of
                    (s', hs) \<Rightarrow> (s', session (heap s r) # hs))
            else (case evict now timeout closeThrows rest
                         (s\<lparr>sessionPool := AList.delete k (sessionPool s),
                            sessionKeyMap := (sessionKeyMap s)(r := None)\<rparr>) of
                    (s', hs) \<Rightarrow> (s', session (heap s r) # hs)))
      else evict now timeout closeThrows rest s)"

definition availableCount :: "pool_state \<Rightarrow> nat" where
  "availableCount s = length (filter (\<lambda>(k, r). \<not> inUse (heap s r)) (sessionPool s))"

record config =
  POOL_SIZE :: int
  SESSION_TIMEOUT :: int

definition default_config :: config where
  "default_config = \<lparr>POOL_SIZE = 3, SESSION_TIMEOUT = 25 * 60 * 1000\<rparr>"

text \<open>
  \<open>cleanupSessions\<close> returns the pool after the eviction loop, the handles it
  closed or tried to close, and the number of background pre-warms it starts. Each
  pre-warm that succeeds later runs \<open>insertPrewarmed\<close>.
\<close>

definition cleanupSessions :: "config \<Rightarrow> int \<Rightarrow> (handle \<Rightarrow> bool) \<Rightarrow> pool_state \<Rightarrow> pool_state \<times> handle list \<times> nat" where
  "cleanupSessions cfg now closeThrows s =
     (case evict now (SESSION_TIMEOUT cfg) closeThrows (sessionPool s) s of
        (s', hs) \<Rightarrow>
          (s', hs,
           if int (availableCount s') < POOL_SIZE cfg
           then nat (POOL_SIZE cfg - int (availableCount s')) else 0))"

definition insertPrewarmed :: "PooledSession \<Rightarrow> pool_state \<Rightarrow> pool_state" where
  "insertPrewarmed p s =
     s\<lparr>heap := (heap s)(nextRef s := p),
       nextRef := Suc (nextRef s),
       sessionPool := AList.update (sessionId p) (nextRef s) (sessionPool s)\<rparr>"

definition empty_pool :: pool_state where
  "empty_pool =
     \<lparr>heap = (\<lambda>_. \<lparr>session = 0, sessionId = [], createdAt = 0, lastUsed = 0, inUse = False\<rparr>),
      nextRef = 0, sessionPool = [], sessionKeyMap = Map.empty\<rparr>"

section \<open>The WebSocket message handler\<close>

text \<open>
  One run of the \<open>ws.on("message")\<close> handler, for one request. Everything the run
  takes from outside is a field of \<open>env\<close>: the result of \<open>JSON.parse\<close> and of the
  destructuring (\<open>Inl\<close> when it throws), the clock, the outcome of an on-demand
  session creation, whether \<open>session.stream()\<close> and \<open>session.send\<close> throw, the
  messages the stream yields and whether it then ends or throws, and whether a
  \<open>ws.send\<close> throws, given the wire messages already sent and the one to send.
  The run records what it does in a trace: each wire message that was sent, each
  call of \<open>updateSessionKey\<close> and each call of \<open>releaseSession\<close>.

  A run is taken on its own: no other request and no cleanup touches the pool
  between its steps. The stream is a finite list of messages; a stream that
  neither ends nor yields a result message keeps the handler in its loop, and such
  a run has no exit.
\<close>

datatype block = TextBlock string | OtherBlock

record SDKMessage =
  msg_type :: string
  msg_subtype :: string
  session_id :: string
  content :: "block list option"

datatype wire =
    Metadata string
  | SessionCreated string
  | Message string SDKMessage
  | TextChunk string
  | Complete string string
  | ErrorMsg string

datatype effect = Wire wire | Rekeyed ref string | Released ref

record request =
  req_prompt :: "string option"
  req_sessionId :: "string option"

record env =
  parsed :: "string + request"
  t_acquire :: int
  new_session :: creation
  stream_throws :: "string option"
  send_throws :: "string option"
  events :: "SDKMessage list"
  stream_end :: "string option"
  ws_throws :: "wire list \<Rightarrow> wire \<Rightarrow> string option"
  t_release :: int

record relay =
  pool :: pool_state
  trace :: "effect list"
  fullResponse :: string
  realSessionId :: string

fun wires :: "effect list \<Rightarrow> wire list" where
  "wires [] = []"
| "wires (Wire w # tr) = w # wires tr"
| "wires (Rekeyed r k # tr) = wires tr"
| "wires (Released r # tr) = wires tr"

text \<open>A statement returns \<open>Some err\<close> when it throws \<open>err\<close>, with the state reached.\<close>

definition ws_send :: "env \<Rightarrow> wire \<Rightarrow> relay \<Rightarrow> string option \<times> relay" where
  "ws_send e w st =
     (case ws_throws e (wires (trace st)) w of
        Some err \<Rightarrow> (Some err, st)
      | None \<Rightarrow> (None, st\<lparr>trace := trace st @ [Wire w]\<rparr>))"

fun send_blocks :: "env \<Rightarrow> block list \<Rightarrow> relay \<Rightarrow> string option \<times> relay" where
  "send_blocks e [] st = (None, st)"
| "send_blocks e (TextBlock t # bs) st =
     (case ws_send e (TextChunk t) (st\<lparr>fullResponse := fullResponse st @ t\<rparr>) of
        (Some err, st') \<Rightarrow> (Some err, st')
      | (None, st') \<Rightarrow> send_blocks e bs st')"
| "send_blocks e (OtherBlock # bs) st = send_blocks e bs st"

definition is_init :: "SDKMessage \<Rightarrow> bool" where
  "is_init m = (msg_type m = ''system'' \<and> msg_subtype m = ''init'')"

text \<open>
  The body of the \<open>for await\<close> loop up to the test for a result message, in its
  three parts: the capture of the session id from an init message with the re-key,
  the pass-through of the message, and the collection of the text blocks.
\<close>

definition capture_session_id :: "env \<Rightarrow> ref \<Rightarrow> SDKMessage \<Rightarrow> relay \<Rightarrow> string option \<times> relay" where
  "capture_session_id e r m st =
     (if is_init m
      then ws_send e (SessionCreated (session_id m))
             (st\<lparr>realSessionId := session_id m,
                 pool := updateSessionKey r (session_id m) (pool st),
                 trace := trace st @ [Rekeyed r (session_id m)]\<rparr>)
      else (None, st))"

definition collect_text :: "env \<Rightarrow> SDKMessage \<Rightarrow> relay \<Rightarrow> string option \<times> relay" where
  "collect_text e m st =
     (if msg_type m = ''assistant''
      then (case content m of
              None \<Rightarrow> (None, st)
            | Some bs \<Rightarrow> send_blocks e bs st)
      else (None, st))"

definition relay_message :: "env \<Rightarrow> ref \<Rightarrow> SDKMessage \<Rightarrow> relay \<Rightarrow> string option \<times> relay" where
  "relay_message e r m st =
     (case capture_session_id e r m st of
        (Some err, st1) \<Rightarrow> (Some err, st1)
      | (None, st1) \<Rightarrow>
          (case ws_send e (Message (msg_type m) m) st1 of
             (Some err, st2) \<Rightarrow> (Some err, st2)
           | (None, st2) \<Rightarrow> collect_text e m st2))"

text \<open>
  The loop over the stream: the messages still to come, and \<open>fin\<close>, the error the
  stream throws once they are consumed (\<open>None\<close> when it just ends).
\<close>

fun drain :: "env \<Rightarrow> ref \<Rightarrow> SDKMessage list \<Rightarrow> string option \<Rightarrow> relay \<Rightarrow> string option \<times> relay" where
  "drain e r [] fin st = (fin, st)"
| "drain e r (m # ms) fin st =
     (case relay_message e r m st of
        (Some err, st') \<Rightarrow> (Some err, st')
      | (None, st') \<Rightarrow>
          if msg_type m = ''result'' then (None, st') else drain e r ms fin st')"

datatype exit = Threw string | Returned | Finished

definition falsy :: "string option \<Rightarrow> bool" where
  "falsy p = (case p of None \<Rightarrow> True | Some s \<Rightarrow> s = [])"

text \<open>
  The part of the \<open>try\<close> block that follows a successful \<open>getSession\<close>: taking
  the stream, sending the prompt, the loop, and the \<open>complete\<close> message.
\<close>

definition respond :: "env \<Rightarrow> ref \<Rightarrow> relay \<Rightarrow> exit \<times> relay" where
  "respond e r st =
     (case stream_throws e of
        Some err \<Rightarrow> (Threw err, st)
      | None \<Rightarrow>
          (case send_throws e of
             Some err \<Rightarrow> (Threw err, st)
           | None \<Rightarrow>
               (case drain e r (events e) (stream_end e)
                       (st\<lparr>fullResponse := [], realSessionId := sessionId (heap (pool st) r)\<rparr>) of
                  (Some err, st4) \<Rightarrow> (Threw err, st4)
                | (None, st4) \<Rightarrow>
                    (case ws_send e (Complete (fullResponse st4) (realSessionId st4)) st4 of
                       (Some err, st5) \<Rightarrow> (Threw err, st5)
                     | (None, st5) \<Rightarrow> (Finished, st5)))))"

text \<open>
  The \<open>try\<close> block: how it was left, the value of \<open>assignedSession\<close>, and the state.
\<close>

definition try_block :: "env \<Rightarrow> relay \<Rightarrow> exit \<times> ref option \<times> relay" where
  "try_block e st0 =
     (case parsed e of
        Inl err \<Rightarrow> (Threw err, None, st0)
      | Inr req \<Rightarrow>
          if falsy (req_prompt req)
          then (case ws_send e (ErrorMsg ''No prompt provided'') st0 of
                  (Some err, st) \<Rightarrow> (Threw err, None, st)
                | (None, st) \<Rightarrow> (Returned, None, st))
          else
            (case ws_send e (Metadata ''Prompt received'') st0 of
               (Some err, st1) \<Rightarrow> (Threw err, None, st1)
             | (None, st1) \<Rightarrow>
                 (case getSession (req_sessionId req) (t_acquire e) (new_session e) (pool st1) of
                    (None, p) \<Rightarrow>
                      (case ws_send e (ErrorMsg ''Failed to get session'') (st1\<lparr>pool := p\<rparr>) of
                         (Some err, st2) \<Rightarrow> (Threw err, None, st2)
                       | (None, st2) \<Rightarrow> (Returned, None, st2))
                  | (Some r, p) \<Rightarrow>
                      (case respond e r (st1\<lparr>pool := p\<rparr>) of
                         (ex, st2) \<Rightarrow> (ex, Some r, st2)))))"

text \<open>The \<open>catch\<close> block sends the error; a throw of that \<open>ws.send\<close> leaves the handler.\<close>

definition catch_block :: "env \<Rightarrow> exit \<Rightarrow> relay \<Rightarrow> relay" where
  "catch_block e ex st =
     (case ex of
        Threw err \<Rightarrow> snd (ws_send e (ErrorMsg err) st)
      | Returned \<Rightarrow> st
      | Finished \<Rightarrow> st)"

definition finally_block :: "env \<Rightarrow> ref option \<Rightarrow> relay \<Rightarrow> relay" where
  "finally_block e assignedSession st =
     (case assignedSession of
        None \<Rightarrow> st
      | Some r \<Rightarrow>
          st\<lparr>pool := releaseSession r (t_release e) (pool st),
             trace := trace st @ [Released r]\<rparr>)"

definition start :: "pool_state \<Rightarrow> relay" where
  "start s = \<lparr>pool = s, trace = [], fullResponse = [], realSessionId = []\<rparr>"

definition handle_message :: "env \<Rightarrow> pool_state \<Rightarrow> exit \<times> ref option \<times> relay" where
  "handle_message e s =
     (case try_block e (start s) of
        (ex, assignedSession, st) \<Rightarrow>
          (ex, assignedSession, finally_block e assignedSession (catch_block e ex st)))"

section \<open>What a run is expected to put on the wire\<close>

text \<open>
  The effects one stream message gives rise to when no \<open>ws.send\<close> throws: for a
  \<open>system\<close>/\<open>init\<close> message the re-key and the \<open>session_created\<close> message, then the
  \<open>message\<close> pass-through, then one \<open>text_chunk\<close> per text block of an assistant
  message. The loop consumes the stream up to and including its first \<open>result\<close>
  message.
\<close>

fun block_texts :: "block list \<Rightarrow> string list" where
  "block_texts [] = []"
| "block_texts (TextBlock t # bs) = t # block_texts bs"
| "block_texts (OtherBlock # bs) = block_texts bs"

definition message_texts :: "SDKMessage \<Rightarrow> string list" where
  "message_texts m =
     (if msg_type m = ''assistant''
      then (case content m of None \<Rightarrow> [] | Some bs \<Rightarrow> block_texts bs)
      else [])"

definition message_effects :: "ref \<Rightarrow> SDKMessage \<Rightarrow> effect list" where
  "message_effects r m =
     (if is_init m then [Rekeyed r (session_id m), Wire (SessionCreated (session_id m))] else [])
     @ Wire (Message (msg_type m) m) # map (\<lambda>t. Wire (TextChunk t)) (message_texts m)"

fun consumed :: "SDKMessage list \<Rightarrow> SDKMessage list" where
  "consumed [] = []"
| "consumed (m # ms) = (if msg_type m = ''result'' then [m] else m # consumed ms)"

definition drain_effects :: "ref \<Rightarrow> SDKMessage list \<Rightarrow> effect list" where
  "drain_effects r ms = concat (map (message_effects r) (consumed ms))"

definition reliable :: "env \<Rightarrow> bool" where
  "reliable e = (\<forall>sent w. ws_throws e sent w = None)"

subsection \<open>Reading a trace\<close>

fun session_created_keys :: "effect list \<Rightarrow> string list" where
  "session_created_keys [] = []"
| "session_created_keys (Wire (SessionCreated k) # tr) = k # session_created_keys tr"
| "session_created_keys (x # tr) = session_created_keys tr"

fun rekeyed_keys :: "effect list \<Rightarrow> string list" where
  "rekeyed_keys [] = []"
| "rekeyed_keys (Rekeyed r k # tr) = k # rekeyed_keys tr"
| "rekeyed_keys (x # tr) = rekeyed_keys tr"

fun chunk_text :: "wire list \<Rightarrow> string" where
  "chunk_text [] = []"
| "chunk_text (TextChunk t # ws) = t @ chunk_text ws"
| "chunk_text (w # ws) = chunk_text ws"

fun is_complete :: "wire \<Rightarrow> bool" where
  "is_complete (Complete t k) = True"
| "is_complete w = False"

fun is_error :: "wire \<Rightarrow> bool" where
  "is_error (ErrorMsg m) = True"
| "is_error w = False"

fun is_release :: "effect \<Rightarrow> bool" where
  "is_release (Released r) = True"
| "is_release x = False"

text \<open>The effects other than a \<open>complete\<close> message, an error message and a release.\<close>

fun plain :: "effect \<Rightarrow> bool" where
  "plain (Wire (Complete t k)) = False"
| "plain (Wire (ErrorMsg m)) = False"
| "plain (Released r) = False"
| "plain x = True"

section \<open>Sample pools and runs\<close>

definition prewarmed :: "string \<Rightarrow> handle \<Rightarrow> int \<Rightarrow> PooledSession" where
  "prewarmed u h t =
     \<lparr>session = h, sessionId = ''prewarm-'' @ u, createdAt = t, lastUsed = t, inUse = False\<rparr>"

definition creation_ok :: "string \<Rightarrow> handle \<Rightarrow> int \<Rightarrow> creation" where
  "creation_ok u h t = \<lparr>created_handle = Some h, uuid = u, t_createdAt = t, t_lastUsed = t\<rparr>"

definition creation_failed :: creation where
  "creation_failed = \<lparr>created_handle = None, uuid = [], t_createdAt = 0, t_lastUsed = 0\<rparr>"

text \<open>The pool after the start-up warm-up has inserted two sessions.\<close>

definition warm_pool :: pool_state where
  "warm_pool =
     insertPrewarmed (prewarmed ''b'' 2 1000000) (insertPrewarmed (prewarmed ''a'' 1 0) empty_pool)"

text \<open>The same pool after a request has taken its first entry at time 0.\<close>

definition busy_pool :: pool_state where
  "busy_pool = snd (getSession None 0 (creation_ok ''c'' 3 0) warm_pool)"

text \<open>That entry released again at time 5, and the pool with both entries taken.\<close>

definition idle_pool :: pool_state where
  "idle_pool = releaseSession 0 5 busy_pool"

definition full_pool :: pool_state where
  "full_pool = snd (getSession None 0 (creation_ok ''c'' 3 0) busy_pool)"

text \<open>
  The pool after a first request has re-keyed entry 0 to the session id \<open>abc\<close> the
  SDK reported, and released it.
\<close>

definition known_pool :: pool_state where
  "known_pool = releaseSession 0 5 (updateSessionKey 0 ''abc'' busy_pool)"

definition init_message :: "string \<Rightarrow> SDKMessage" where
  "init_message k = \<lparr>msg_type = ''system'', msg_subtype = ''init'', session_id = k, content = None\<rparr>"

definition assistant_message :: "string list \<Rightarrow> SDKMessage" where
  "assistant_message ts =
     \<lparr>msg_type = ''assistant'', msg_subtype = [], session_id = [], content = Some (map TextBlock ts)\<rparr>"

definition result_message :: SDKMessage where
  "result_message = \<lparr>msg_type = ''result'', msg_subtype = ''success'', session_id = [], content = None\<rparr>"

text \<open>
  A request without a session key whose stream reports the session id, two text
  blocks and a result; the same request whose stream throws after the two text
  blocks; and a request that names the session \<open>abc\<close> and whose stream reports
  that same id, twice.
\<close>

definition sample_env :: env where
  "sample_env =
     \<lparr>parsed = Inr \<lparr>req_prompt = Some ''hi'', req_sessionId = None\<rparr>,
      t_acquire = 20, new_session = creation_failed,
      stream_throws = None, send_throws = None,
      events = [init_message ''real'', assistant_message [''ab'', ''cd''], result_message],
      stream_end = None, ws_throws = (\<lambda>sent w. None), t_release = 30\<rparr>"

definition failing_env :: env where
  "failing_env =
     sample_env\<lparr>events := [init_message ''real'', assistant_message [''ab'', ''cd'']],
                stream_end := Some ''boom''\<rparr>"

definition resume_env :: env where
  "resume_env =
     sample_env\<lparr>parsed := Inr \<lparr>req_prompt = Some ''hi'', req_sessionId = Some ''abc''\<rparr>,
                events := [init_message ''abc'', init_message ''abc'', result_message]\<rparr>"

section \<open>Properties of the pool operations\<close>

subsection \<open>The sample pools\<close>

lemma warm_pool_simps:
  "sessionPool warm_pool = [(''prewarm-a'', 0), (''prewarm-b'', 1)]"
  "heap warm_pool 0 = prewarmed ''a'' 1 0"
  "heap warm_pool (Suc 0) = prewarmed ''b'' 2 1000000"
  "sessionKeyMap warm_pool = Map.empty"
  "nextRef warm_pool = 2"
  by (simp_all add: warm_pool_def insertPrewarmed_def empty_pool_def prewarmed_def)

lemma busy_pool_simps:
  "sessionPool busy_pool = [(''prewarm-a'', 0), (''prewarm-b'', 1)]"
  "heap busy_pool 0 = (prewarmed ''a'' 1 0)\<lparr>inUse := True\<rparr>"
  "heap busy_pool (Suc 0) = prewarmed ''b'' 2 1000000"
  "sessionKeyMap busy_pool = [0 \<mapsto> ''prewarm-a'']"
  "nextRef busy_pool = 2"
  by (simp_all add: busy_pool_def getSession_def reusable_def mark_in_use_def warm_pool_simps prewarmed_def)

lemma idle_pool_simps:
  "sessionPool idle_pool = [(''prewarm-a'', 0), (''prewarm-b'', 1)]"
  "heap idle_pool 0 = (prewarmed ''a'' 1 0)\<lparr>lastUsed := 5\<rparr>"
  "heap idle_pool (Suc 0) = prewarmed ''b'' 2 1000000"
  "sessionKeyMap idle_pool = [0 \<mapsto> ''prewarm-a'']"
  by (simp_all add: idle_pool_def releaseSession_def busy_pool_simps prewarmed_def)

lemma full_pool_simps:
  "sessionPool full_pool = [(''prewarm-a'', 0), (''prewarm-b'', 1)]"
  "heap full_pool 0 = (prewarmed ''a'' 1 0)\<lparr>inUse := True\<rparr>"
  "heap full_pool (Suc 0) = (prewarmed ''b'' 2 1000000)\<lparr>lastUsed := 0, inUse := True\<rparr>"
  "nextRef full_pool = 2"
  by (simp_all add: full_pool_def getSession_def reusable_def mark_in_use_def busy_pool_simps prewarmed_def)

subsection \<open>Acquiring a session\<close>

lemma find_available_None: "find_available h xs = None \<longleftrightarrow> (\<forall>(k, r)\<in>set xs. inUse (h r))"
  by (induction xs) (auto split: if_splits)

lemma find_available_Some: "find_available h xs = Some (k, r) \<Longrightarrow> (k, r) \<in> set xs \<and> \<not> inUse (h r)"
  by (induction xs) (auto split: if_splits)

lemma reusable_Some:
  "reusable u s = Some r \<Longrightarrow> \<exists>k. (k, r) \<in> set (sessionPool s) \<and> \<not> inUse (heap s r)"
  by (auto simp: reusable_def split: option.splits if_splits dest: map_of_SomeD)

lemma reusable_None_if_busy:
  "\<forall>(k, r)\<in>set (sessionPool s). inUse (heap s r) \<Longrightarrow> reusable u s = None"
  using reusable_Some [of u s] by (cases "reusable u s") auto

lemma getSession_none_free:
  assumes "\<forall>(k, r)\<in>set (sessionPool s). inUse (heap s r)"
  shows "getSession u now c s =
     (case prewarmSession c of
        None \<Rightarrow> (None, s)
      | Some p \<Rightarrow>
          (Some (nextRef s),
           s\<lparr>heap := (heap s)(nextRef s := p),
             nextRef := Suc (nextRef s),
             sessionPool := AList.update (sessionId p) (nextRef s) (sessionPool s),
             sessionKeyMap := (sessionKeyMap s)(nextRef s \<mapsto> sessionId p)\<rparr>))"
proof -
  have "reusable u s = None" using assms by (rule reusable_None_if_busy)
  moreover have "find_available (heap s) (sessionPool s) = None"
    using assms by (simp add: find_available_None)
  ultimately show ?thesis by (simp add: getSession_def)
qed

lemma getSession_None_iff:
  "fst (getSession u now c s) = None \<longleftrightarrow>
     created_handle c = None \<and> (\<forall>(k, r)\<in>set (sessionPool s). inUse (heap s r))"
proof (cases "\<forall>(k, r)\<in>set (sessionPool s). inUse (heap s r)")
  case True
  then show ?thesis
    by (simp add: getSession_none_free prewarmSession_def split: option.splits)
next
  case False
  then have "find_available (heap s) (sessionPool s) \<noteq> None"
    by (simp add: find_available_None)
  with False show ?thesis
    by (auto simp: getSession_def split: option.splits)
qed

text \<open>
  C1. Mutual exclusion needs every path of \<open>getSession\<close> that returns an entry to
  mark it in use. The re-use path and the scan do; the on-demand creation path
  returns the entry as \<open>prewarmSession\<close> made it, with \<open>inUse\<close> false. On the
  empty pool a first request gets the new entry 0, whose flag stays false, and a
  second request made while the first still holds it gets entry 0 as well.
\<close>

theorem getSession_on_demand_entry_left_free:
  "fst (getSession None 10 (creation_ok ''a'' 7 10) empty_pool) = Some 0
   \<and> \<not> inUse (heap (snd (getSession None 10 (creation_ok ''a'' 7 10) empty_pool)) 0)
   \<and> fst (getSession None 11 (creation_ok ''b'' 8 11)
             (snd (getSession None 10 (creation_ok ''a'' 7 10) empty_pool))) = Some 0"
  by (simp add: getSession_def reusable_def prewarmSession_def empty_pool_def mark_in_use_def creation_ok_def)

subsection \<open>Releasing\<close>

lemma release_free_entry:
  "\<not> inUse (p::PooledSession) \<Longrightarrow> p\<lparr>lastUsed := t, inUse := False\<rparr> = p\<lparr>lastUsed := t\<rparr>"
  by (cases p) simp

lemma release_free_entry_same_time:
  "\<not> inUse (p::PooledSession) \<Longrightarrow> lastUsed p = t \<Longrightarrow> p\<lparr>lastUsed := t, inUse := False\<rparr> = p"
  by (cases p) simp

text \<open>
  C9, as the claim states it, fails: a second release at a later time leaves a
  different \<open>lastUsed\<close> than a single release does.
\<close>

theorem releaseSession_twice_differs:
  "releaseSession 0 2 (releaseSession 0 1 warm_pool) \<noteq> releaseSession 0 1 warm_pool"
proof
  assume "releaseSession 0 2 (releaseSession 0 1 warm_pool) = releaseSession 0 1 warm_pool"
  then have "lastUsed (heap (releaseSession 0 2 (releaseSession 0 1 warm_pool)) 0)
           = lastUsed (heap (releaseSession 0 1 warm_pool) 0)" by simp
  then show False by (simp add: releaseSession_def)
qed

text \<open>
  C9, amended. A release absorbs an earlier release of the same entry: two calls
  leave the pool as the second call alone would. After a release the entry is free
  and \<open>lastUsed\<close> is the time of the call; the two maps are untouched. Releasing a
  free entry changes \<open>lastUsed\<close> only, and changes nothing when \<open>lastUsed\<close> already
  is the time of the call.
\<close>

theorem releaseSession_absorbs_earlier_release:
  "releaseSession r t2 (releaseSession r t1 s) = releaseSession r t2 s
   \<and> \<not> inUse (heap (releaseSession r t s) r)
   \<and> lastUsed (heap (releaseSession r t s) r) = t
   \<and> sessionPool (releaseSession r t s) = sessionPool s
   \<and> sessionKeyMap (releaseSession r t s) = sessionKeyMap s
   \<and> (\<not> inUse (heap s r) \<longrightarrow>
        releaseSession r t s = s\<lparr>heap := (heap s)(r := (heap s r)\<lparr>lastUsed := t\<rparr>)\<rparr>)
   \<and> (\<not> inUse (heap s r) \<and> lastUsed (heap s r) = t \<longrightarrow> releaseSession r t s = s)"
proof -
  have a: "releaseSession r t2 (releaseSession r t1 s) = releaseSession r t2 s"
    by (simp add: releaseSession_def)
  have b: "\<not> inUse (heap (releaseSession r t s) r) \<and> lastUsed (heap (releaseSession r t s) r) = t
         \<and> sessionPool (releaseSession r t s) = sessionPool s
         \<and> sessionKeyMap (releaseSession r t s) = sessionKeyMap s"
    by (simp add: releaseSession_def)
  have c: "\<not> inUse (heap s r) \<longrightarrow>
        releaseSession r t s = s\<lparr>heap := (heap s)(r := (heap s r)\<lparr>lastUsed := t\<rparr>)\<rparr>"
  proof
    assume "\<not> inUse (heap s r)"
    then have "(heap s r)\<lparr>lastUsed := t, inUse := False\<rparr> = (heap s r)\<lparr>lastUsed := t\<rparr>"
      by (rule release_free_entry)
    then show "releaseSession r t s = s\<lparr>heap := (heap s)(r := (heap s r)\<lparr>lastUsed := t\<rparr>)\<rparr>"
      unfolding releaseSession_def by (rule arg_cong)
  qed
  have d: "\<not> inUse (heap s r) \<and> lastUsed (heap s r) = t \<longrightarrow> releaseSession r t s = s"
  proof
    assume h: "\<not> inUse (heap s r) \<and> lastUsed (heap s r) = t"
    then have "(heap s r)\<lparr>lastUsed := t, inUse := False\<rparr> = heap s r"
      by (intro release_free_entry_same_time) simp_all
    then have "releaseSession r t s = s\<lparr>heap := (heap s)(r := heap s r)\<rparr>"
      unfolding releaseSession_def by (rule arg_cong)
    then show "releaseSession r t s = s" by simp
  qed
  show ?thesis using a b c d by blast
qed

theorem releaseSession_absorbs_earlier_release_witness:
  "\<not> inUse (heap warm_pool 0) \<and> lastUsed (heap warm_pool 0) = 0
   \<and> releaseSession 0 0 warm_pool = warm_pool
   \<and> releaseSession 0 7 warm_pool = warm_pool\<lparr>heap := (heap warm_pool)(0 := (heap warm_pool 0)\<lparr>lastUsed := 7\<rparr>)\<rparr>
   \<and> releaseSession 0 7 (releaseSession 0 3 warm_pool) = releaseSession 0 7 warm_pool"
proof -
  have h: "\<not> inUse (heap warm_pool 0)" "lastUsed (heap warm_pool 0) = 0"
    by (simp_all add: warm_pool_simps prewarmed_def)
  show ?thesis
    using h releaseSession_absorbs_earlier_release [of 0 7 3 warm_pool 0]
          releaseSession_absorbs_earlier_release [of 0 7 3 warm_pool 7]
    by blast
qed

subsection \<open>Re-keying\<close>

text \<open>
  C6, as the claim states it, fails for an entry the key map does not track. The
  start-up warm-up and the background top-up insert entries with
  \<open>sessionPool.set\<close> alone, so \<open>sessionKeyMap\<close> has no key for them until the scan
  of \<open>getSession\<close> hands them out; \<open>updateSessionKey\<close> then leaves the entry under
  its old key.
\<close>

theorem updateSessionKey_untracked_entry_not_moved:
  "map_of (sessionPool warm_pool) ''prewarm-a'' = Some 0
   \<and> map_of (sessionPool (updateSessionKey 0 ''real'' warm_pool)) ''real'' = None
   \<and> map_of (sessionPool (updateSessionKey 0 ''real'' warm_pool)) ''prewarm-a'' = Some 0"
  by (simp add: updateSessionKey_def warm_pool_simps)

text \<open>
  C6, amended. When the key map tracks a non-empty key \<open>old\<close> for the entry and
  \<open>old\<close> differs from the new key, \<open>updateSessionKey\<close> deletes \<open>old\<close> and sets the
  new key in one step: afterwards the new key maps to the entry, \<open>old\<close> maps to
  nothing, every other key is as before, and the key map tracks the new key. When
  no key, the empty key or the new key itself is tracked, both maps are unchanged.
  In every case the entry's stored \<open>sessionId\<close> becomes the new key, no other
  object changes, and a second identical call changes nothing.
\<close>

theorem updateSessionKey_moves_tracked_entry:
  "(let s' = updateSessionKey r k s
    in (\<forall>old. sessionKeyMap s r = Some old \<and> old \<noteq> [] \<and> old \<noteq> k \<longrightarrow>
            sessionPool s' = AList.update k r (AList.delete old (sessionPool s))
          \<and> map_of (sessionPool s') k = Some r
          \<and> map_of (sessionPool s') old = None
          \<and> (\<forall>k'. k' \<noteq> old \<and> k' \<noteq> k \<longrightarrow> map_of (sessionPool s') k' = map_of (sessionPool s) k')
          \<and> sessionKeyMap s' = (sessionKeyMap s)(r \<mapsto> k))
     \<and> (sessionKeyMap s r = None \<or> sessionKeyMap s r = Some [] \<or> sessionKeyMap s r = Some k \<longrightarrow>
            sessionPool s' = sessionPool s \<and> sessionKeyMap s' = sessionKeyMap s)
     \<and> sessionId (heap s' r) = k
     \<and> (\<forall>r'. r' \<noteq> r \<longrightarrow> heap s' r' = heap s r')
     \<and> updateSessionKey r k s' = s')"
  by (auto simp: updateSessionKey_def Let_def update_conv' delete_conv' split: option.splits)

theorem updateSessionKey_moves_tracked_entry_witness:
  "sessionKeyMap busy_pool 0 = Some ''prewarm-a''
   \<and> map_of (sessionPool (updateSessionKey 0 ''real'' busy_pool)) ''real'' = Some 0
   \<and> map_of (sessionPool (updateSessionKey 0 ''real'' busy_pool)) ''prewarm-a'' = None
   \<and> map_of (sessionPool (updateSessionKey 0 ''real'' busy_pool)) ''prewarm-b''
       = map_of (sessionPool busy_pool) ''prewarm-b''
   \<and> sessionKeyMap (updateSessionKey 0 ''real'' busy_pool) = (sessionKeyMap busy_pool)(0 \<mapsto> ''real'')
   \<and> sessionId (heap (updateSessionKey 0 ''real'' busy_pool) 0) = ''real''
   \<and> updateSessionKey 0 ''real'' (updateSessionKey 0 ''real'' busy_pool)
       = updateSessionKey 0 ''real'' busy_pool"
proof -
  have h: "sessionKeyMap busy_pool 0 = Some ''prewarm-a''"
    by (simp add: busy_pool_simps)
  note T = updateSessionKey_moves_tracked_entry [of 0 "''real''" busy_pool, unfolded Let_def]
  have pre: "sessionKeyMap busy_pool 0 = Some ''prewarm-a'' \<and> ''prewarm-a'' \<noteq> [] \<and> ''prewarm-a'' \<noteq> ''real''"
    using h by simp
  note A = T [THEN conjunct1, THEN spec, of "''prewarm-a''", THEN mp, OF pre]
  note B = T [THEN conjunct2, THEN conjunct2]
  have neq: "''prewarm-b'' \<noteq> ''prewarm-a'' \<and> ''prewarm-b'' \<noteq> ''real''" by simp
  note C = A [THEN conjunct2, THEN conjunct2, THEN conjunct2, THEN conjunct1, THEN spec,
              of "''prewarm-b''", THEN mp, OF neq]
  show ?thesis
    apply (intro conjI)
          apply (rule h)
         apply (rule A [THEN conjunct2, THEN conjunct1])
        apply (rule A [THEN conjunct2, THEN conjunct2, THEN conjunct1])
       apply (rule C)
      apply (rule A [THEN conjunct2, THEN conjunct2, THEN conjunct2, THEN conjunct2])
     apply (rule B [THEN conjunct1])
    apply (rule B [THEN conjunct2, THEN conjunct2])
    done
qed

text \<open>
  C7, as the claim states it, fails for the second entry of the warmed-up pool:
  the key map does not track it, the re-key leaves it under its old key, and
  \<open>getSession\<close> with the new key falls through to the scan, which returns the
  first free entry.
\<close>

theorem rekey_then_acquire_returns_other_entry:
  "map_of (sessionPool warm_pool) ''prewarm-b'' = Some 1
   \<and> \<not> inUse (heap (updateSessionKey 1 ''k'' warm_pool) 1)
   \<and> fst (getSession (Some ''k'') 5 (creation_ok ''c'' 3 5) (updateSessionKey 1 ''k'' warm_pool)) = Some 0"
  by (simp add: updateSessionKey_def warm_pool_simps getSession_def reusable_def prewarmed_def)

text \<open>
  C7, amended. If the key map tracks the entry under the non-empty key it has in
  the pool, the new key is not empty and the entry is free, then \<open>updateSessionKey\<close>
  followed by \<open>getSession\<close> with the new key returns that entry, now in use.
\<close>

theorem rekey_then_acquire_returns_tracked_entry:
  assumes "sessionKeyMap s r = Some old" and "old \<noteq> []" and "map_of (sessionPool s) old = Some r"
      and "k \<noteq> []" and "\<not> inUse (heap s r)"
  shows "fst (getSession (Some k) now c (updateSessionKey r k s)) = Some r
       \<and> inUse (heap (snd (getSession (Some k) now c (updateSessionKey r k s))) r)"
proof -
  let ?s = "updateSessionKey r k s"
  have "map_of (sessionPool ?s) k = Some r"
    using assms(1,2,3) by (auto simp: updateSessionKey_def Let_def update_conv')
  moreover have "\<not> inUse (heap ?s r)"
    using assms(5) by (simp add: updateSessionKey_def Let_def split: option.splits)
  ultimately have "reusable (Some k) ?s = Some r"
    using assms(4) by (simp add: reusable_def)
  then show ?thesis by (simp add: getSession_def mark_in_use_def)
qed

theorem rekey_then_acquire_returns_tracked_entry_witness:
  "sessionKeyMap idle_pool 0 = Some ''prewarm-a'' \<and> ''prewarm-a'' \<noteq> []
   \<and> map_of (sessionPool idle_pool) ''prewarm-a'' = Some 0
   \<and> ''real'' \<noteq> [] \<and> \<not> inUse (heap idle_pool 0)
   \<and> fst (getSession (Some ''real'') 9 creation_failed (updateSessionKey 0 ''real'' idle_pool)) = Some 0
   \<and> inUse (heap (snd (getSession (Some ''real'') 9 creation_failed (updateSessionKey 0 ''real'' idle_pool))) 0)"
proof -
  have h: "sessionKeyMap idle_pool 0 = Some ''prewarm-a''" "''prewarm-a'' \<noteq> []"
    "map_of (sessionPool idle_pool) ''prewarm-a'' = Some 0" "''real'' \<noteq> []"
    "\<not> inUse (heap idle_pool 0)"
    by (simp_all add: idle_pool_simps prewarmed_def)
  note T = rekey_then_acquire_returns_tracked_entry [OF h, of 9 creation_failed]
  show ?thesis
    by (intro conjI) (rule h T [THEN conjunct1] T [THEN conjunct2])+
qed

subsection \<open>The keys of the pool stay distinct\<close>

text \<open>
  A JavaScript \<open>Map\<close> holds each key once. The association list starts without
  repeated keys and every operation keeps it so.
\<close>

lemma distinct_empty_pool: "distinct (map fst (sessionPool empty_pool))"
  by (simp add: empty_pool_def)

lemma distinct_insertPrewarmed:
  "distinct (map fst (sessionPool s)) \<Longrightarrow> distinct (map fst (sessionPool (insertPrewarmed p s)))"
  by (simp add: insertPrewarmed_def distinct_update)

lemma distinct_getSession:
  "distinct (map fst (sessionPool s)) \<Longrightarrow> distinct (map fst (sessionPool (snd (getSession u now c s))))"
  by (auto simp: getSession_def mark_in_use_def distinct_update split: option.splits)

lemma distinct_updateSessionKey:
  "distinct (map fst (sessionPool s)) \<Longrightarrow> distinct (map fst (sessionPool (updateSessionKey r k s)))"
  by (auto simp: updateSessionKey_def Let_def distinct_update distinct_delete split: option.splits)

lemma distinct_releaseSession:
  "distinct (map fst (sessionPool s)) \<Longrightarrow> distinct (map fst (sessionPool (releaseSession r now s)))"
  by (simp add: releaseSession_def)

subsection \<open>The eviction loop\<close>

lemma evict_heap: "heap (fst (evict now T ct xs s)) = heap s"
  by (induction xs arbitrary: s) (auto simp: case_prod_beta)

lemma evict_nextRef: "nextRef (fst (evict now T ct xs s)) = nextRef s"
  by (induction xs arbitrary: s) (auto simp: case_prod_beta)

lemma evict_pool:
  "sessionPool (fst (evict now T ct xs s)) =
     filter (\<lambda>(k, _). \<not> (\<exists>r. (k, r) \<in> set xs \<and> now - lastUsed (heap s r) > T \<and> \<not> ct (session (heap s r))))
       (sessionPool s)"
proof (induction xs arbitrary: s)
  case Nil
  then show ?case by simp
next
  case (Cons x xs)
  obtain k r where x: "x = (k, r)" by (cases x)
  show ?case
  proof (cases "now - lastUsed (heap s r) > T \<and> \<not> ct (session (heap s r))")
    case True
    let ?s = "s\<lparr>sessionPool := AList.delete k (sessionPool s), sessionKeyMap := (sessionKeyMap s)(r := None)\<rparr>"
    have "sessionPool (fst (evict now T ct (x # xs) s)) = sessionPool (fst (evict now T ct xs ?s))"
      using True x by (simp add: case_prod_beta)
    also have "\<dots> = filter (\<lambda>(k', _). \<not> (\<exists>r. (k', r) \<in> set xs \<and> now - lastUsed (heap s r) > T \<and> \<not> ct (session (heap s r))))
       (AList.delete k (sessionPool s))"
      by (simp add: Cons.IH)
    also have "\<dots> = filter (\<lambda>(k', _). \<not> (\<exists>r. (k', r) \<in> set (x # xs) \<and> now - lastUsed (heap s r) > T \<and> \<not> ct (session (heap s r))))
       (sessionPool s)"
      using True x by (auto simp: AList.delete_eq intro!: filter_cong)
    finally show ?thesis .
  next
    case False
    have "sessionPool (fst (evict now T ct (x # xs) s)) = sessionPool (fst (evict now T ct xs s))"
      using False x by (auto simp: case_prod_beta)
    also have "\<dots> = filter (\<lambda>(k', _). \<not> (\<exists>r. (k', r) \<in> set (x # xs) \<and> now - lastUsed (heap s r) > T \<and> \<not> ct (session (heap s r))))
       (sessionPool s)"
      using False x by (auto simp: Cons.IH intro!: filter_cong)
    finally show ?thesis .
  qed
qed

lemma evict_keymap:
  "sessionKeyMap (fst (evict now T ct xs s)) r =
     (if \<exists>k. (k, r) \<in> set xs \<and> now - lastUsed (heap s r) > T \<and> \<not> ct (session (heap s r))
      then None else sessionKeyMap s r)"
proof (induction xs arbitrary: s)
  case Nil
  then show ?case by simp
next
  case (Cons x xs)
  obtain k r' where x: "x = (k, r')" by (cases x)
  show ?case using x Cons.IH by (auto simp: case_prod_beta)
qed

lemma evict_closes:
  "snd (evict now T ct xs s) =
     map (\<lambda>(k, r). session (heap s r)) (filter (\<lambda>(k, r). now - lastUsed (heap s r) > T) xs)"
proof (induction xs arbitrary: s)
  case Nil
  then show ?case by simp
next
  case (Cons x xs)
  obtain k r' where x: "x = (k, r')" by (cases x)
  show ?case using x by (auto simp: Cons.IH case_prod_beta)
qed

lemma cleanup_heap: "heap (fst (cleanupSessions cfg now ct s)) = heap s"
  by (simp add: cleanupSessions_def case_prod_beta evict_heap)

lemma cleanup_closes:
  "fst (snd (cleanupSessions cfg now ct s)) =
     map (\<lambda>(k, r). session (heap s r))
       (filter (\<lambda>(k, r). now - lastUsed (heap s r) > SESSION_TIMEOUT cfg) (sessionPool s))"
  by (simp add: cleanupSessions_def case_prod_beta evict_closes)

lemma cleanup_pool:
  assumes "distinct (map fst (sessionPool s))"
  shows "sessionPool (fst (cleanupSessions cfg now ct s)) =
     filter (\<lambda>(k, r). \<not> (now - lastUsed (heap s r) > SESSION_TIMEOUT cfg \<and> \<not> ct (session (heap s r))))
       (sessionPool s)"
proof -
  have "sessionPool (fst (cleanupSessions cfg now ct s)) =
      sessionPool (fst (evict now (SESSION_TIMEOUT cfg) ct (sessionPool s) s))"
    by (simp add: cleanupSessions_def split: prod.splits)
  also have "\<dots> = filter (\<lambda>(k, r). \<not> (now - lastUsed (heap s r) > SESSION_TIMEOUT cfg \<and> \<not> ct (session (heap s r))))
       (sessionPool s)"
    unfolding evict_pool
    using assms by (auto intro!: filter_cong dest: eq_key_imp_eq_value)
  finally show ?thesis .
qed

lemma cleanup_removes_expired:
  assumes d: "distinct (map fst (sessionPool s))"
      and kr: "(k, r) \<in> set (sessionPool s)"
      and ex: "now - lastUsed (heap s r) > SESSION_TIMEOUT cfg"
      and cl: "\<not> ct (session (heap s r))"
  shows "map_of (sessionPool (fst (cleanupSessions cfg now ct s))) k = None
       \<and> session (heap s r) \<in> set (fst (snd (cleanupSessions cfg now ct s)))"
proof -
  let ?s' = "fst (cleanupSessions cfg now ct s)"
  note pool = cleanup_pool [OF d, of cfg now ct]
  have "k \<notin> fst ` set (sessionPool ?s')"
  proof
    assume "k \<in> fst ` set (sessionPool ?s')"
    then obtain r' where r': "(k, r') \<in> set (sessionPool s)"
        "\<not> (now - lastUsed (heap s r') > SESSION_TIMEOUT cfg \<and> \<not> ct (session (heap s r')))"
      unfolding pool by auto
    with kr d have "r' = r" by (auto dest: eq_key_imp_eq_value)
    with r' ex cl show False by simp
  qed
  then have "map_of (sessionPool ?s') k = None" by (simp add: map_of_eq_None_iff)
  moreover have "session (heap s r) \<in> set (fst (snd (cleanupSessions cfg now ct s)))"
    unfolding cleanup_closes using kr ex by force
  ultimately show ?thesis by simp
qed

lemma distinct_cleanupSessions:
  "distinct (map fst (sessionPool s)) \<Longrightarrow>
     distinct (map fst (sessionPool (fst (cleanupSessions cfg now ct s))))"
  by (simp add: cleanup_pool distinct_map_filter)

text \<open>
  C2, as the claim states it, fails: the loop tests the idle time only, so an entry
  that a request has held for longer than the timeout is closed and removed while
  it is in use.
\<close>

theorem cleanupSessions_evicts_in_use_entry:
  "inUse (heap busy_pool 0) \<and> map_of (sessionPool busy_pool) ''prewarm-a'' = Some 0
   \<and> map_of (sessionPool (fst (cleanupSessions default_config 1500001 (\<lambda>_. False) busy_pool))) ''prewarm-a'' = None"
  by (simp add: busy_pool_simps cleanupSessions_def default_config_def prewarmed_def case_prod_beta)

text \<open>
  C2, amended. \<open>cleanupSessions\<close> removes an entry only if its idle time
  \<open>now - lastUsed\<close> exceeds the timeout, whatever its \<open>inUse\<close> flag. After a run
  every entry left in the pool was there before and has an idle time of at most the
  timeout, or its \<open>close\<close> threw; no entry with an idle time of at most the timeout
  is removed; every entry whose idle time exceeds the timeout and whose \<open>close\<close>
  does not throw is closed and removed. The session objects are not changed.
\<close>

theorem cleanupSessions_evicts_by_idle_time:
  assumes "distinct (map fst (sessionPool s))"
  shows "(let s' = fst (cleanupSessions cfg now closeThrows s);
              hs = fst (snd (cleanupSessions cfg now closeThrows s))
          in heap s' = heap s
           \<and> (\<forall>(k, r)\<in>set (sessionPool s').
                 (k, r) \<in> set (sessionPool s)
               \<and> (now - lastUsed (heap s' r) \<le> SESSION_TIMEOUT cfg \<or> closeThrows (session (heap s' r))))
           \<and> (\<forall>(k, r)\<in>set (sessionPool s).
                 now - lastUsed (heap s r) \<le> SESSION_TIMEOUT cfg \<longrightarrow> (k, r) \<in> set (sessionPool s'))
           \<and> (\<forall>(k, r)\<in>set (sessionPool s).
                 now - lastUsed (heap s r) > SESSION_TIMEOUT cfg \<and> \<not> closeThrows (session (heap s r))
                 \<longrightarrow> map_of (sessionPool s') k = None \<and> session (heap s r) \<in> set hs))"
proof -
  let ?s' = "fst (cleanupSessions cfg now closeThrows s)"
  let ?hs = "fst (snd (cleanupSessions cfg now closeThrows s))"
  note pool = cleanup_pool [OF assms, of cfg now closeThrows]
  note hp = cleanup_heap [of cfg now closeThrows s]
  have a: "\<forall>(k, r)\<in>set (sessionPool ?s').
             (k, r) \<in> set (sessionPool s)
           \<and> (now - lastUsed (heap ?s' r) \<le> SESSION_TIMEOUT cfg \<or> closeThrows (session (heap ?s' r)))"
    unfolding pool hp by auto
  have b: "\<forall>(k, r)\<in>set (sessionPool s).
             now - lastUsed (heap s r) \<le> SESSION_TIMEOUT cfg \<longrightarrow> (k, r) \<in> set (sessionPool ?s')"
    unfolding pool by auto
  have c: "\<forall>(k, r)\<in>set (sessionPool s).
             now - lastUsed (heap s r) > SESSION_TIMEOUT cfg \<and> \<not> closeThrows (session (heap s r))
             \<longrightarrow> map_of (sessionPool ?s') k = None \<and> session (heap s r) \<in> set ?hs"
    using cleanup_removes_expired [OF assms] by blast
  show ?thesis unfolding Let_def using hp a b c by blast
qed

theorem cleanupSessions_evicts_by_idle_time_witness:
  "distinct (map fst (sessionPool busy_pool))
   \<and> (''prewarm-a'', 0) \<in> set (sessionPool busy_pool)
   \<and> 1500001 - lastUsed (heap busy_pool 0) > SESSION_TIMEOUT default_config
   \<and> inUse (heap busy_pool 0)
   \<and> map_of (sessionPool (fst (cleanupSessions default_config 1500001 (\<lambda>_. False) busy_pool))) ''prewarm-a'' = None
   \<and> session (heap busy_pool 0) \<in> set (fst (snd (cleanupSessions default_config 1500001 (\<lambda>_. False) busy_pool)))
   \<and> (''prewarm-b'', 1) \<in> set (sessionPool busy_pool)
   \<and> 1500001 - lastUsed (heap busy_pool 1) \<le> SESSION_TIMEOUT default_config
   \<and> (''prewarm-b'', 1) \<in> set (sessionPool (fst (cleanupSessions default_config 1500001 (\<lambda>_. False) busy_pool)))
   \<and> heap (fst (cleanupSessions default_config 1500001 (\<lambda>_. False) busy_pool)) = heap busy_pool"
proof -
  have d: "distinct (map fst (sessionPool busy_pool))" by (simp add: busy_pool_simps)
  have h: "(''prewarm-a'', 0) \<in> set (sessionPool busy_pool)"
    "1500001 - lastUsed (heap busy_pool 0) > SESSION_TIMEOUT default_config"
    "inUse (heap busy_pool 0)"
    "(''prewarm-b'', 1) \<in> set (sessionPool busy_pool)"
    "1500001 - lastUsed (heap busy_pool 1) \<le> SESSION_TIMEOUT default_config"
    by (simp_all add: busy_pool_simps prewarmed_def default_config_def)
  show ?thesis
    using d h cleanupSessions_evicts_by_idle_time [OF d, of default_config 1500001 "\<lambda>_. False"]
    unfolding Let_def by blast
qed

text \<open>
  C10. If \<open>close\<close> throws on an entry that the loop tries to evict, the entry stays
  in \<open>sessionPool\<close> under its key, its \<open>sessionKeyMap\<close> entry and the object are
  untouched, and \<open>close\<close> was called on its handle. The loop goes on: every entry
  whose idle time exceeds the timeout and whose \<open>close\<close> does not throw is closed
  and removed, wherever it stands in the iteration order. A later run at the same
  or a later time calls \<open>close\<close> on the kept entry's handle again.
\<close>

theorem cleanupSessions_close_failure_keeps_entry:
  assumes "distinct (map fst (sessionPool s))"
      and "(k, r) \<in> set (sessionPool s)"
      and "now - lastUsed (heap s r) > SESSION_TIMEOUT cfg"
      and "closeThrows (session (heap s r))"
  shows "(let s' = fst (cleanupSessions cfg now closeThrows s);
              hs = fst (snd (cleanupSessions cfg now closeThrows s))
          in (k, r) \<in> set (sessionPool s')
           \<and> map_of (sessionPool s') k = Some r
           \<and> sessionKeyMap s' r = sessionKeyMap s r
           \<and> heap s' r = heap s r
           \<and> session (heap s r) \<in> set hs
           \<and> (\<forall>(k', r')\<in>set (sessionPool s).
                 now - lastUsed (heap s r') > SESSION_TIMEOUT cfg \<and> \<not> closeThrows (session (heap s r'))
                 \<longrightarrow> map_of (sessionPool s') k' = None \<and> session (heap s r') \<in> set hs)
           \<and> (\<forall>now' closeThrows'. now \<le> now' \<longrightarrow>
                 session (heap s r) \<in> set (fst (snd (cleanupSessions cfg now' closeThrows' s')))))"
proof -
  let ?s' = "fst (cleanupSessions cfg now closeThrows s)"
  let ?hs = "fst (snd (cleanupSessions cfg now closeThrows s))"
  note pool = cleanup_pool [OF assms(1), of cfg now closeThrows]
  note hp = cleanup_heap [of cfg now closeThrows s]
  have km: "sessionKeyMap ?s' r = sessionKeyMap s r"
    using assms(4) by (simp add: cleanupSessions_def case_prod_beta evict_keymap)
  have kept: "(k, r) \<in> set (sessionPool ?s')"
    unfolding pool using assms(2,4) by simp
  have dist': "distinct (map fst (sessionPool ?s'))"
    unfolding pool using assms(1) by (simp add: distinct_map_filter)
  have look: "map_of (sessionPool ?s') k = Some r"
    using kept dist' by simp
  have tried: "session (heap s r) \<in> set ?hs"
    unfolding cleanup_closes using assms(2,3) by force
  have others: "\<forall>(k', r')\<in>set (sessionPool s).
      now - lastUsed (heap s r') > SESSION_TIMEOUT cfg \<and> \<not> closeThrows (session (heap s r'))
      \<longrightarrow> map_of (sessionPool ?s') k' = None \<and> session (heap s r') \<in> set ?hs"
    using cleanup_removes_expired [OF assms(1)] by blast
  have again: "\<forall>now' closeThrows'. now \<le> now' \<longrightarrow>
      session (heap s r) \<in> set (fst (snd (cleanupSessions cfg now' closeThrows' ?s')))"
  proof (intro allI impI)
    fix now' :: int and closeThrows' :: "handle \<Rightarrow> bool"
    assume "now \<le> now'"
    with assms(3) have "now' - lastUsed (heap ?s' r) > SESSION_TIMEOUT cfg" by (simp add: hp)
    with kept show "session (heap s r) \<in> set (fst (snd (cleanupSessions cfg now' closeThrows' ?s')))"
      unfolding cleanup_closes hp by force
  qed
  show ?thesis unfolding Let_def using kept look km hp tried others again by simp
qed

theorem cleanupSessions_close_failure_keeps_entry_witness:
  "distinct (map fst (sessionPool idle_pool))
   \<and> (''prewarm-a'', 0) \<in> set (sessionPool idle_pool)
   \<and> 2500001 - lastUsed (heap idle_pool 0) > SESSION_TIMEOUT default_config
   \<and> (\<lambda>h. h = 1) (session (heap idle_pool 0))
   \<and> map_of (sessionPool (fst (cleanupSessions default_config 2500001 (\<lambda>h. h = 1) idle_pool))) ''prewarm-a'' = Some 0
   \<and> sessionKeyMap (fst (cleanupSessions default_config 2500001 (\<lambda>h. h = 1) idle_pool)) 0 = sessionKeyMap idle_pool 0
   \<and> session (heap idle_pool 0) \<in> set (fst (snd (cleanupSessions default_config 2500001 (\<lambda>h. h = 1) idle_pool)))
   \<and> (''prewarm-b'', 1) \<in> set (sessionPool idle_pool)
   \<and> 2500001 - lastUsed (heap idle_pool 1) > SESSION_TIMEOUT default_config
   \<and> \<not> (\<lambda>h. h = 1) (session (heap idle_pool 1))
   \<and> map_of (sessionPool (fst (cleanupSessions default_config 2500001 (\<lambda>h. h = 1) idle_pool))) ''prewarm-b'' = None
   \<and> session (heap idle_pool 0) \<in> set (fst (snd (cleanupSessions default_config 2600000 (\<lambda>_. False)
         (fst (cleanupSessions default_config 2500001 (\<lambda>h. h = 1) idle_pool)))))"
proof -
  have d: "distinct (map fst (sessionPool idle_pool))" by (simp add: idle_pool_simps)
  have h: "(''prewarm-a'', 0) \<in> set (sessionPool idle_pool)"
    "2500001 - lastUsed (heap idle_pool 0) > SESSION_TIMEOUT default_config"
    "(\<lambda>h. h = 1) (session (heap idle_pool 0))"
    by (simp_all add: idle_pool_simps prewarmed_def default_config_def)
  have o: "(''prewarm-b'', 1) \<in> set (sessionPool idle_pool)"
    "2500001 - lastUsed (heap idle_pool 1) > SESSION_TIMEOUT default_config"
    "\<not> (\<lambda>h. h = 1) (session (heap idle_pool 1))"
    "(2500001::int) \<le> 2600000"
    by (simp_all add: idle_pool_simps prewarmed_def default_config_def)
  show ?thesis
    using d h o
      cleanupSessions_close_failure_keeps_entry
        [of idle_pool "''prewarm-a''" 0 default_config 2500001 "\<lambda>h. h = 1"]
    unfolding Let_def by blast
qed

section \<open>Properties of the message handler\<close>

subsection \<open>The sample runs\<close>

lemmas run_defs =
  handle_message_def try_block_def respond_def start_def falsy_def
  ws_send_def getSession_def reusable_def prewarmed_def mark_in_use_def prewarmSession_def
  relay_message_def capture_session_id_def collect_text_def is_init_def
  init_message_def assistant_message_def result_message_def updateSessionKey_def
  catch_block_def finally_block_def releaseSession_def creation_failed_def

lemma sample_env_simps:
  "parsed sample_env = Inr \<lparr>req_prompt = Some ''hi'', req_sessionId = None\<rparr>"
  "t_acquire sample_env = 20" "new_session sample_env = creation_failed"
  "stream_throws sample_env = None" "send_throws sample_env = None"
  "events sample_env = [init_message ''real'', assistant_message [''ab'', ''cd''], result_message]"
  "stream_end sample_env = None" "ws_throws sample_env = (\<lambda>sent w. None)" "t_release sample_env = 30"
  by (simp_all add: sample_env_def)

lemma failing_env_simps:
  "parsed failing_env = Inr \<lparr>req_prompt = Some ''hi'', req_sessionId = None\<rparr>"
  "t_acquire failing_env = 20" "new_session failing_env = creation_failed"
  "stream_throws failing_env = None" "send_throws failing_env = None"
  "events failing_env = [init_message ''real'', assistant_message [''ab'', ''cd'']]"
  "stream_end failing_env = Some ''boom''" "ws_throws failing_env = (\<lambda>sent w. None)" "t_release failing_env = 30"
  by (simp_all add: failing_env_def sample_env_def)

lemma resume_env_simps:
  "parsed resume_env = Inr \<lparr>req_prompt = Some ''hi'', req_sessionId = Some ''abc''\<rparr>"
  "t_acquire resume_env = 20" "new_session resume_env = creation_failed"
  "stream_throws resume_env = None" "send_throws resume_env = None"
  "events resume_env = [init_message ''abc'', init_message ''abc'', result_message]"
  "stream_end resume_env = None" "ws_throws resume_env = (\<lambda>sent w. None)" "t_release resume_env = 30"
  by (simp_all add: resume_env_def sample_env_def)

lemma known_pool_simps:
  "sessionPool known_pool = [(''prewarm-b'', 1), (''abc'', 0)]"
  "heap known_pool 0 = \<lparr>session = 1, sessionId = ''abc'', createdAt = 0, lastUsed = 5, inUse = False\<rparr>"
  "heap known_pool (Suc 0) = prewarmed ''b'' 2 1000000"
  "sessionKeyMap known_pool = [0 \<mapsto> ''abc'']"
  by (simp_all add: known_pool_def releaseSession_def updateSessionKey_def busy_pool_simps prewarmed_def)

lemma failing_run:
  "fst (handle_message failing_env warm_pool) = Threw ''boom''"
  "fst (snd (handle_message failing_env warm_pool)) = Some 0"
  by (simp_all add: run_defs failing_env_simps warm_pool_simps)

lemma sample_run:
  "fst (handle_message sample_env warm_pool) = Finished"
  "fst (snd (handle_message sample_env warm_pool)) = Some 0"
  by (simp_all add: run_defs sample_env_simps warm_pool_simps)

subsection \<open>Sending and the loop body\<close>

lemma ws_send_cases:
  assumes "ws_send e w st = (res, st')"
  shows "(res = None \<and> st' = st\<lparr>trace := trace st @ [Wire w]\<rparr>) \<or> (res \<noteq> None \<and> st' = st)"
  using assms by (auto simp: ws_send_def split: option.splits)

lemma ws_send_reliable: "reliable e \<Longrightarrow> ws_send e w st = (None, st\<lparr>trace := trace st @ [Wire w]\<rparr>)"
  by (simp add: ws_send_def reliable_def)

lemma send_blocks_trace:
  "send_blocks e bs st = (res, st') \<Longrightarrow>
     \<exists>new. trace st' = trace st @ new
          \<and> prefix new (map (\<lambda>t. Wire (TextChunk t)) (block_texts bs))
          \<and> pool st' = pool st \<and> realSessionId st' = realSessionId st
          \<and> (res = None \<longrightarrow> new = map (\<lambda>t. Wire (TextChunk t)) (block_texts bs)
                \<and> fullResponse st' = fullResponse st @ concat (block_texts bs))"
proof (induction e bs st arbitrary: res st' rule: send_blocks.induct)
  case (1 e st)
  then show ?case by auto
next
  case (2 e t bs st)
  let ?st = "st\<lparr>fullResponse := fullResponse st @ t\<rparr>"
  show ?case
  proof (cases "ws_throws e (wires (trace st)) (TextChunk t)")
    case None
    let ?st1 = "?st\<lparr>trace := trace st @ [Wire (TextChunk t)]\<rparr>"
    have s: "ws_send e (TextChunk t) ?st = (None, ?st1)" using None by (simp add: ws_send_def)
    with "2.prems" have rest: "send_blocks e bs ?st1 = (res, st')" by simp
    from "2.IH" [OF s [symmetric] refl rest] obtain new where
      n: "trace st' = trace ?st1 @ new"
         "prefix new (map (\<lambda>t. Wire (TextChunk t)) (block_texts bs))"
         "pool st' = pool ?st1" "realSessionId st' = realSessionId ?st1"
         "res = None \<longrightarrow> new = map (\<lambda>t. Wire (TextChunk t)) (block_texts bs)
                \<and> fullResponse st' = fullResponse ?st1 @ concat (block_texts bs)"
      by blast
    show ?thesis
      by (rule exI [of _ "Wire (TextChunk t) # new"]) (use n in auto)
  next
    case (Some err)
    then have "ws_send e (TextChunk t) ?st = (Some err, ?st)" by (simp add: ws_send_def)
    with "2.prems" have "res = Some err" "st' = ?st" by simp_all
    then show ?thesis by (intro exI [of _ "[]"]) simp
  qed
next
  case (3 e bs st)
  then show ?case by simp
qed

lemma send_blocks_reliable: "reliable e \<Longrightarrow> fst (send_blocks e bs st) = None"
  by (induction e bs st rule: send_blocks.induct) (simp_all add: ws_send_reliable)

lemma sessionId_updateSessionKey: "sessionId (heap (updateSessionKey r k p) r) = k"
  by (simp add: updateSessionKey_def Let_def split: option.splits)

lemma capture_session_id_trace:
  assumes "capture_session_id e r m st = (res, st')"
  shows "\<exists>new. trace st' = trace st @ new
          \<and> prefix new (if is_init m then [Rekeyed r (session_id m), Wire (SessionCreated (session_id m))] else [])
          \<and> pool st' = fold (updateSessionKey r) (rekeyed_keys new) (pool st)
          \<and> fullResponse st' = fullResponse st
          \<and> (realSessionId st = sessionId (heap (pool st) r) \<longrightarrow> realSessionId st' = sessionId (heap (pool st') r))
          \<and> (res = None \<longrightarrow> new = (if is_init m then [Rekeyed r (session_id m), Wire (SessionCreated (session_id m))] else []))"
proof (cases "is_init m")
  case False
  with assms show ?thesis by (intro exI [of _ "[]"]) (simp add: capture_session_id_def)
next
  case True
  let ?st = "st\<lparr>realSessionId := session_id m,
                 pool := updateSessionKey r (session_id m) (pool st),
                 trace := trace st @ [Rekeyed r (session_id m)]\<rparr>"
  from assms True have "ws_send e (SessionCreated (session_id m)) ?st = (res, st')"
    by (simp add: capture_session_id_def)
  from ws_send_cases [OF this] show ?thesis
  proof
    assume "res = None \<and> st' = ?st\<lparr>trace := trace ?st @ [Wire (SessionCreated (session_id m))]\<rparr>"
    then show ?thesis using True
      by (intro exI [of _ "[Rekeyed r (session_id m), Wire (SessionCreated (session_id m))]"])
         (simp add: sessionId_updateSessionKey)
  next
    assume "res \<noteq> None \<and> st' = ?st"
    then show ?thesis using True
      by (intro exI [of _ "[Rekeyed r (session_id m)]"]) (simp add: sessionId_updateSessionKey)
  qed
qed

lemma collect_text_trace:
  assumes "collect_text e m st = (res, st')"
  shows "\<exists>new. trace st' = trace st @ new
          \<and> prefix new (map (\<lambda>t. Wire (TextChunk t)) (message_texts m))
          \<and> pool st' = pool st \<and> realSessionId st' = realSessionId st
          \<and> (res = None \<longrightarrow> new = map (\<lambda>t. Wire (TextChunk t)) (message_texts m)
                \<and> fullResponse st' = fullResponse st @ concat (message_texts m))"
proof (cases "msg_type m = ''assistant''")
  case False
  with assms show ?thesis by (intro exI [of _ "[]"]) (simp add: collect_text_def message_texts_def)
next
  case True
  show ?thesis
  proof (cases "content m")
    case None
    with assms True show ?thesis by (intro exI [of _ "[]"]) (simp add: collect_text_def message_texts_def)
  next
    case (Some bs)
    with assms True have "send_blocks e bs st = (res, st')" by (simp add: collect_text_def)
    from send_blocks_trace [OF this] show ?thesis using True Some by (simp add: message_texts_def)
  qed
qed

lemma rekeyed_keys_chunks [simp]: "rekeyed_keys (map (\<lambda>t. Wire (TextChunk t)) ts) = []"
  by (induction ts) simp_all

lemma rekeyed_keys_append: "rekeyed_keys (a @ b) = rekeyed_keys a @ rekeyed_keys b"
  by (induction a rule: rekeyed_keys.induct) simp_all

lemma rekeyed_keys_prefix_chunks: "prefix new (map (\<lambda>t. Wire (TextChunk t)) ts) \<Longrightarrow> rekeyed_keys new = []"
proof -
  assume "prefix new (map (\<lambda>t. Wire (TextChunk t)) ts)"
  then obtain zs where "map (\<lambda>t. Wire (TextChunk t)) ts = new @ zs" by (auto simp: prefix_def)
  then have "rekeyed_keys (new @ zs) = []" by (metis rekeyed_keys_chunks)
  then show ?thesis by (simp add: rekeyed_keys_append)
qed

lemma relay_message_trace:
  assumes "relay_message e r m st = (res, st')"
  shows "\<exists>new. trace st' = trace st @ new
          \<and> prefix new (message_effects r m)
          \<and> pool st' = fold (updateSessionKey r) (rekeyed_keys new) (pool st)
          \<and> (realSessionId st = sessionId (heap (pool st) r) \<longrightarrow> realSessionId st' = sessionId (heap (pool st') r))
          \<and> (res = None \<longrightarrow> new = message_effects r m
                \<and> fullResponse st' = fullResponse st @ concat (message_texts m))"
proof -
  let ?init = "if is_init m then [Rekeyed r (session_id m), Wire (SessionCreated (session_id m))] else []"
  let ?msg = "Wire (Message (msg_type m) m)"
  let ?chunks = "map (\<lambda>t. Wire (TextChunk t)) (message_texts m)"
  have eff: "message_effects r m = ?init @ ?msg # ?chunks" by (simp add: message_effects_def)
  obtain r1 st1 where c: "capture_session_id e r m st = (r1, st1)" by (cases "capture_session_id e r m st")
  from capture_session_id_trace [OF c] obtain n1 where n1:
    "trace st1 = trace st @ n1" "prefix n1 ?init"
    "pool st1 = fold (updateSessionKey r) (rekeyed_keys n1) (pool st)"
    "fullResponse st1 = fullResponse st"
    "realSessionId st = sessionId (heap (pool st) r) \<longrightarrow> realSessionId st1 = sessionId (heap (pool st1) r)"
    "r1 = None \<longrightarrow> n1 = ?init"
    by blast
  show ?thesis
  proof (cases r1)
    case (Some err)
    with assms c have "res = Some err" "st' = st1" by (simp_all add: relay_message_def)
    with n1 show ?thesis unfolding eff by (intro exI [of _ n1]) auto
  next
    case None
    with n1 have full1: "n1 = ?init" by simp
    obtain r2 st2 where w: "ws_send e (Message (msg_type m) m) st1 = (r2, st2)"
      by (cases "ws_send e (Message (msg_type m) m) st1")
    from ws_send_cases [OF w] show ?thesis
    proof
      assume f: "r2 \<noteq> None \<and> st2 = st1"
      with assms c None w have "res = r2" "st' = st1" by (auto simp: relay_message_def)
      with n1 f show ?thesis unfolding eff by (intro exI [of _ n1]) auto
    next
      assume ok: "r2 = None \<and> st2 = st1\<lparr>trace := trace st1 @ [?msg]\<rparr>"
      with assms c None w have t: "collect_text e m st2 = (res, st')" by (simp add: relay_message_def)
      from collect_text_trace [OF t] obtain n3 where n3:
        "trace st' = trace st2 @ n3" "prefix n3 ?chunks"
        "pool st' = pool st2" "realSessionId st' = realSessionId st2"
        "res = None \<longrightarrow> n3 = ?chunks \<and> fullResponse st' = fullResponse st2 @ concat (message_texts m)"
        by blast
      have k3: "rekeyed_keys n3 = []" using n3(2) by (rule rekeyed_keys_prefix_chunks)
      show ?thesis unfolding eff
        by (rule exI [of _ "n1 @ ?msg # n3"])
           (use n1 n3 ok full1 k3 in \<open>auto simp: rekeyed_keys_append\<close>)
    qed
  qed
qed

subsection \<open>The loop\<close>

lemma drain_effects_Nil [simp]: "drain_effects r [] = []"
  by (simp add: drain_effects_def)

lemma drain_effects_Cons:
  "drain_effects r (m # ms) =
     message_effects r m @ (if msg_type m = ''result'' then [] else drain_effects r ms)"
  by (simp add: drain_effects_def)

lemma drain_trace:
  "drain e r ms fin st = (res, st') \<Longrightarrow>
     \<exists>new. trace st' = trace st @ new
          \<and> prefix new (drain_effects r ms)
          \<and> pool st' = fold (updateSessionKey r) (rekeyed_keys new) (pool st)
          \<and> (realSessionId st = sessionId (heap (pool st) r) \<longrightarrow> realSessionId st' = sessionId (heap (pool st') r))
          \<and> (res = None \<longrightarrow> new = drain_effects r ms
                \<and> fullResponse st' = fullResponse st @ concat (concat (map message_texts (consumed ms))))"
proof (induction ms arbitrary: st)
  case Nil
  then show ?case by (intro exI [of _ "[]"]) simp
next
  case (Cons m ms)
  obtain r1 st1 where rm: "relay_message e r m st = (r1, st1)" by (cases "relay_message e r m st")
  from relay_message_trace [OF rm] obtain n1 where n1:
    "trace st1 = trace st @ n1" "prefix n1 (message_effects r m)"
    "pool st1 = fold (updateSessionKey r) (rekeyed_keys n1) (pool st)"
    "realSessionId st = sessionId (heap (pool st) r) \<longrightarrow> realSessionId st1 = sessionId (heap (pool st1) r)"
    "r1 = None \<longrightarrow> n1 = message_effects r m \<and> fullResponse st1 = fullResponse st @ concat (message_texts m)"
    by blast
  show ?case
  proof (cases r1)
    case (Some err)
    with Cons.prems rm have "res = Some err" "st' = st1" by simp_all
    with n1 show ?thesis
      by (intro exI [of _ n1]) (auto simp: drain_effects_Cons intro: prefix_prefix)
  next
    case None
    show ?thesis
    proof (cases "msg_type m = ''result''")
      case True
      with Cons.prems rm None have "res = None" "st' = st1" by simp_all
      with n1 None True show ?thesis
        by (intro exI [of _ n1]) (auto simp: drain_effects_Cons)
    next
      case False
      with Cons.prems rm None have "drain e r ms fin st1 = (res, st')" by simp
      from Cons.IH [OF this] obtain n2 where n2:
        "trace st' = trace st1 @ n2" "prefix n2 (drain_effects r ms)"
        "pool st' = fold (updateSessionKey r) (rekeyed_keys n2) (pool st1)"
        "realSessionId st1 = sessionId (heap (pool st1) r) \<longrightarrow> realSessionId st' = sessionId (heap (pool st') r)"
        "res = None \<longrightarrow> n2 = drain_effects r ms
           \<and> fullResponse st' = fullResponse st1 @ concat (concat (map message_texts (consumed ms)))"
        by blast
      show ?thesis
        by (rule exI [of _ "n1 @ n2"])
           (use n1 n2 None False in \<open>auto simp: drain_effects_Cons rekeyed_keys_append\<close>)
    qed
  qed
qed

lemma capture_session_id_reliable: "reliable e \<Longrightarrow> fst (capture_session_id e r m st) = None"
  by (simp add: capture_session_id_def ws_send_reliable)

lemma collect_text_reliable: "reliable e \<Longrightarrow> fst (collect_text e m st) = None"
  by (simp add: collect_text_def send_blocks_reliable split: option.splits)

lemma relay_message_reliable: "reliable e \<Longrightarrow> fst (relay_message e r m st) = None"
proof -
  assume rel: "reliable e"
  obtain st1 where c: "capture_session_id e r m st = (None, st1)"
    using capture_session_id_reliable [OF rel, of r m st]
    by (cases "capture_session_id e r m st") simp
  show ?thesis
    using c collect_text_reliable [OF rel]
    by (simp add: relay_message_def ws_send_reliable [OF rel])
qed

lemma drain_reliable:
  "reliable e \<Longrightarrow>
     fst (drain e r ms fin st) = (if \<exists>m\<in>set ms. msg_type m = ''result'' then None else fin)
   \<and> trace (snd (drain e r ms fin st)) = trace st @ drain_effects r ms"
proof (induction ms arbitrary: st)
  case Nil
  then show ?case by simp
next
  case (Cons m ms)
  obtain st1 where rm: "relay_message e r m st = (None, st1)"
    using relay_message_reliable [OF Cons.prems, of r m st]
    by (cases "relay_message e r m st") simp
  from relay_message_trace [OF rm] have t1: "trace st1 = trace st @ message_effects r m" by auto
  show ?case using rm t1 Cons.IH [OF Cons.prems, of st1]
    by (simp add: drain_effects_Cons)
qed

lemma after_rekey_append:
  assumes a: "\<forall>i k. i < length a \<and> a ! i = Wire (SessionCreated k) \<longrightarrow> 0 < i \<and> a ! (i - 1) = Rekeyed r k"
      and b: "\<forall>i k. i < length b \<and> b ! i = Wire (SessionCreated k) \<longrightarrow> 0 < i \<and> b ! (i - 1) = Rekeyed r k"
  shows "\<forall>i k. i < length (a @ b) \<and> (a @ b) ! i = Wire (SessionCreated k) \<longrightarrow>
           0 < i \<and> (a @ b) ! (i - 1) = Rekeyed r k"
proof (intro allI impI)
  fix i k
  assume h: "i < length (a @ b) \<and> (a @ b) ! i = Wire (SessionCreated k)"
  show "0 < i \<and> (a @ b) ! (i - 1) = Rekeyed r k"
  proof (cases "i < length a")
    case True
    with h have "a ! i = Wire (SessionCreated k)" by (simp add: nth_append)
    with a True have "0 < i \<and> a ! (i - 1) = Rekeyed r k" by blast
    moreover from True have "i - 1 < length a" by arith
    ultimately show ?thesis by (simp add: nth_append)
  next
    case False
    with h have "i - length a < length b" "b ! (i - length a) = Wire (SessionCreated k)"
      by (auto simp: nth_append)
    with b have j: "0 < i - length a \<and> b ! (i - length a - 1) = Rekeyed r k" by blast
    then have "\<not> i - 1 < length a" by arith
    moreover have "i - 1 - length a = i - length a - 1" by arith
    ultimately show ?thesis using j by (simp add: nth_append)
  qed
qed

lemma chunks_after_rekey:
  "\<forall>i k. i < length (map (\<lambda>t. Wire (TextChunk t)) ts) \<and> map (\<lambda>t. Wire (TextChunk t)) ts ! i = Wire (SessionCreated k) \<longrightarrow>
      0 < i \<and> map (\<lambda>t. Wire (TextChunk t)) ts ! (i - 1) = Rekeyed r k"
  by auto

lemma message_effects_after_rekey:
  "\<forall>i k. i < length (message_effects r m) \<and> message_effects r m ! i = Wire (SessionCreated k) \<longrightarrow>
      0 < i \<and> message_effects r m ! (i - 1) = Rekeyed r k"
proof -
  let ?init = "if is_init m then [Rekeyed r (session_id m), Wire (SessionCreated (session_id m))] else []"
  let ?msg = "[Wire (Message (msg_type m) m)]"
  let ?chunks = "map (\<lambda>t. Wire (TextChunk t)) (message_texts m)"
  have i: "\<forall>i k. i < length ?init \<and> ?init ! i = Wire (SessionCreated k) \<longrightarrow>
      0 < i \<and> ?init ! (i - 1) = Rekeyed r k"
    by (auto simp: nth_Cons' split: if_splits)
  have m: "\<forall>i k. i < length ?msg \<and> ?msg ! i = Wire (SessionCreated k) \<longrightarrow>
      0 < i \<and> ?msg ! (i - 1) = Rekeyed r k"
    by (auto simp: nth_Cons')
  have "message_effects r m = ?init @ ?msg @ ?chunks" by (simp add: message_effects_def)
  then show ?thesis
    using after_rekey_append [OF i after_rekey_append [OF m chunks_after_rekey [of "message_texts m" r]]]
    by simp
qed

lemma drain_effects_after_rekey:
  "\<forall>i k. i < length (drain_effects r ms) \<and> drain_effects r ms ! i = Wire (SessionCreated k) \<longrightarrow>
      0 < i \<and> drain_effects r ms ! (i - 1) = Rekeyed r k"
proof (induction ms)
  case Nil
  then show ?case by simp
next
  case (Cons m ms)
  show ?case
  proof (cases "msg_type m = ''result''")
    case True
    then show ?thesis using message_effects_after_rekey [of r m] by (simp add: drain_effects_Cons)
  next
    case False
    then show ?thesis
      using after_rekey_append [OF message_effects_after_rekey [of r m] Cons.IH]
      by (simp add: drain_effects_Cons)
  qed
qed

lemma before_message_append:
  assumes a: "\<forall>i k. i < length a \<and> a ! i = Wire (SessionCreated k) \<longrightarrow>
                Suc i < length a \<and> (\<exists>m. a ! Suc i = Wire (Message ''system'' m) \<and> is_init m \<and> session_id m = k)"
      and b: "\<forall>i k. i < length b \<and> b ! i = Wire (SessionCreated k) \<longrightarrow>
                Suc i < length b \<and> (\<exists>m. b ! Suc i = Wire (Message ''system'' m) \<and> is_init m \<and> session_id m = k)"
  shows "\<forall>i k. i < length (a @ b) \<and> (a @ b) ! i = Wire (SessionCreated k) \<longrightarrow>
           Suc i < length (a @ b)
         \<and> (\<exists>m. (a @ b) ! Suc i = Wire (Message ''system'' m) \<and> is_init m \<and> session_id m = k)"
proof (intro allI impI)
  fix i k
  assume h: "i < length (a @ b) \<and> (a @ b) ! i = Wire (SessionCreated k)"
  show "Suc i < length (a @ b)
         \<and> (\<exists>m. (a @ b) ! Suc i = Wire (Message ''system'' m) \<and> is_init m \<and> session_id m = k)"
  proof (cases "i < length a")
    case True
    with h have "a ! i = Wire (SessionCreated k)" by (simp add: nth_append)
    with a True have "Suc i < length a \<and> (\<exists>m. a ! Suc i = Wire (Message ''system'' m) \<and> is_init m \<and> session_id m = k)"
      by blast
    then show ?thesis by (simp add: nth_append)
  next
    case False
    with h have "i - length a < length b" "b ! (i - length a) = Wire (SessionCreated k)"
      by (auto simp: nth_append)
    with b have j: "Suc (i - length a) < length b
       \<and> (\<exists>m. b ! Suc (i - length a) = Wire (Message ''system'' m) \<and> is_init m \<and> session_id m = k)" by blast
    moreover from False have "Suc i - length a = Suc (i - length a)" by arith
    moreover from False have "\<not> Suc i < length a" by arith
    ultimately show ?thesis using False by (auto simp: nth_append)
  qed
qed

lemma message_effects_before_message:
  "\<forall>i k. i < length (message_effects r m) \<and> message_effects r m ! i = Wire (SessionCreated k) \<longrightarrow>
      Suc i < length (message_effects r m)
    \<and> (\<exists>m'. message_effects r m ! Suc i = Wire (Message ''system'' m') \<and> is_init m' \<and> session_id m' = k)"
proof -
  let ?head = "(if is_init m then [Rekeyed r (session_id m), Wire (SessionCreated (session_id m))] else [])
               @ [Wire (Message (msg_type m) m)]"
  let ?chunks = "map (\<lambda>t. Wire (TextChunk t)) (message_texts m)"
  have h: "\<forall>i k. i < length ?head \<and> ?head ! i = Wire (SessionCreated k) \<longrightarrow>
      Suc i < length ?head
    \<and> (\<exists>m'. ?head ! Suc i = Wire (Message ''system'' m') \<and> is_init m' \<and> session_id m' = k)"
    by (auto simp: nth_Cons' is_init_def split: if_splits)
  have c: "\<forall>i k. i < length ?chunks \<and> ?chunks ! i = Wire (SessionCreated k) \<longrightarrow>
      Suc i < length ?chunks
    \<and> (\<exists>m'. ?chunks ! Suc i = Wire (Message ''system'' m') \<and> is_init m' \<and> session_id m' = k)"
    by auto
  have "message_effects r m = ?head @ ?chunks" by (simp add: message_effects_def)
  then show ?thesis using before_message_append [OF h c] by simp
qed

lemma drain_effects_before_message:
  "\<forall>i k. i < length (drain_effects r ms) \<and> drain_effects r ms ! i = Wire (SessionCreated k) \<longrightarrow>
      Suc i < length (drain_effects r ms)
    \<and> (\<exists>m. drain_effects r ms ! Suc i = Wire (Message ''system'' m) \<and> is_init m \<and> session_id m = k)"
proof (induction ms)
  case Nil
  then show ?case by simp
next
  case (Cons m ms)
  show ?case
  proof (cases "msg_type m = ''result''")
    case True
    then show ?thesis using message_effects_before_message [of r m] by (simp add: drain_effects_Cons)
  next
    case False
    then show ?thesis
      using before_message_append [OF message_effects_before_message [of r m] Cons.IH]
      by (simp add: drain_effects_Cons)
  qed
qed

lemma session_created_keys_append:
  "session_created_keys (a @ b) = session_created_keys a @ session_created_keys b"
  by (induction a rule: session_created_keys.induct) simp_all

lemma session_created_keys_chunks [simp]:
  "session_created_keys (map (\<lambda>t. Wire (TextChunk t)) ts) = []"
  by (induction ts) simp_all

lemma session_created_keys_message_effects:
  "session_created_keys (message_effects r m) = (if is_init m then [session_id m] else [])"
  by (simp add: message_effects_def session_created_keys_append)

lemma session_created_keys_drain_effects:
  "session_created_keys (drain_effects r ms) = map session_id (filter is_init (consumed ms))"
  by (induction ms)
     (simp_all add: drain_effects_Cons session_created_keys_append session_created_keys_message_effects)

lemma session_created_keys_prefix:
  "prefix a b \<Longrightarrow> prefix (session_created_keys a) (session_created_keys b)"
  by (auto simp: prefix_def session_created_keys_append)

lemma prefix_nth: "prefix a b \<Longrightarrow> i < length a \<Longrightarrow> a ! i = b ! i"
  by (auto simp: prefix_def nth_append)

text \<open>
  C4, as the claim states it, fails. The loop sends \<open>session_created\<close> for every
  \<open>system\<close>/\<open>init\<close> message, and it never compares the reported id with the key
  the caller supplied: a request that names the session \<open>abc\<close>, on a stream that
  reports \<open>abc\<close> twice, gets two \<open>session_created\<close> messages for \<open>abc\<close>.
\<close>

theorem session_created_repeated_for_known_key:
  "parsed resume_env = Inr \<lparr>req_prompt = Some ''hi'', req_sessionId = Some ''abc''\<rparr>
   \<and> fst (handle_message resume_env known_pool) = Finished
   \<and> session_created_keys (trace (snd (snd (handle_message resume_env known_pool)))) = [''abc'', ''abc'']"
  by (simp add: run_defs resume_env_simps known_pool_simps)

text \<open>
  C4, amended. What the loop adds to the trace is a prefix of \<open>drain_effects\<close>, and
  all of it when the loop ends without a throw or no \<open>ws.send\<close> throws: one
  \<open>session_created\<close> message for every init message consumed, carrying that
  message's session id, whatever key the caller supplied. Each \<open>session_created\<close>
  comes immediately after the re-key for the same id, and what follows it, if
  anything, is the pass-through of that init message, so it precedes every later
  wire message. The pool after the loop is the pool before it with the re-keys of
  the trace applied.
\<close>

theorem drain_announces_session_per_init:
  assumes "drain e r ms fin st = (res, st')"
  shows "\<exists>new. trace st' = trace st @ new
          \<and> prefix new (drain_effects r ms)
          \<and> prefix (session_created_keys new) (map session_id (filter is_init (consumed ms)))
          \<and> (res = None \<or> reliable e \<longrightarrow>
                new = drain_effects r ms
              \<and> session_created_keys new = map session_id (filter is_init (consumed ms)))
          \<and> (\<forall>i k. i < length new \<and> new ! i = Wire (SessionCreated k) \<longrightarrow>
                0 < i \<and> new ! (i - 1) = Rekeyed r k)
          \<and> (\<forall>i k. Suc i < length new \<and> new ! i = Wire (SessionCreated k) \<longrightarrow>
                (\<exists>m. new ! Suc i = Wire (Message ''system'' m) \<and> is_init m \<and> session_id m = k))
          \<and> pool st' = fold (updateSessionKey r) (rekeyed_keys new) (pool st)"
proof -
  from drain_trace [OF assms] obtain new where n:
    "trace st' = trace st @ new" "prefix new (drain_effects r ms)"
    "pool st' = fold (updateSessionKey r) (rekeyed_keys new) (pool st)"
    "res = None \<longrightarrow> new = drain_effects r ms"
    by blast
  have keys: "prefix (session_created_keys new) (map session_id (filter is_init (consumed ms)))"
    using session_created_keys_prefix [OF n(2)] by (simp add: session_created_keys_drain_effects)
  have rel: "reliable e \<longrightarrow> new = drain_effects r ms"
    using drain_reliable [of e r ms fin st] assms n(1) by auto
  have full: "res = None \<or> reliable e \<longrightarrow>
                new = drain_effects r ms
              \<and> session_created_keys new = map session_id (filter is_init (consumed ms))"
    using n(4) rel by (auto simp: session_created_keys_drain_effects)
  have q1: "\<forall>i k. i < length new \<and> new ! i = Wire (SessionCreated k) \<longrightarrow>
                0 < i \<and> new ! (i - 1) = Rekeyed r k"
  proof (intro allI impI)
    fix i k
    assume h: "i < length new \<and> new ! i = Wire (SessionCreated k)"
    have len: "length new \<le> length (drain_effects r ms)" using n(2) by (rule prefix_length_le)
    from h have "drain_effects r ms ! i = Wire (SessionCreated k)"
      using prefix_nth [OF n(2), of i] by simp
    with h len drain_effects_after_rekey [of r ms]
    have "0 < i \<and> drain_effects r ms ! (i - 1) = Rekeyed r k" by auto
    moreover from h have "i - 1 < length new" by arith
    ultimately show "0 < i \<and> new ! (i - 1) = Rekeyed r k"
      using prefix_nth [OF n(2), of "i - 1"] by simp
  qed
  have q2: "\<forall>i k. Suc i < length new \<and> new ! i = Wire (SessionCreated k) \<longrightarrow>
                (\<exists>m. new ! Suc i = Wire (Message ''system'' m) \<and> is_init m \<and> session_id m = k)"
  proof (intro allI impI)
    fix i k
    assume h: "Suc i < length new \<and> new ! i = Wire (SessionCreated k)"
    have len: "length new \<le> length (drain_effects r ms)" using n(2) by (rule prefix_length_le)
    from h have "drain_effects r ms ! i = Wire (SessionCreated k)"
      using prefix_nth [OF n(2), of i] by simp
    with h len drain_effects_before_message [of r ms]
    have "\<exists>m. drain_effects r ms ! Suc i = Wire (Message ''system'' m) \<and> is_init m \<and> session_id m = k"
      by auto
    then show "\<exists>m. new ! Suc i = Wire (Message ''system'' m) \<and> is_init m \<and> session_id m = k"
      using prefix_nth [OF n(2), of "Suc i"] h by simp
  qed
  show ?thesis using n(1,2,3) keys full q1 q2 by blast
qed

lemma drain_collapse: "drain e r ms fin st = (fst (drain e r ms fin st), snd (drain e r ms fin st))"
  by simp

theorem drain_announces_session_per_init_witness:
  "reliable sample_env
   \<and> trace (snd (drain sample_env 0 (events sample_env) None (start busy_pool)))
       = drain_effects 0 (events sample_env)
   \<and> session_created_keys (trace (snd (drain sample_env 0 (events sample_env) None (start busy_pool))))
       = [''real'']
   \<and> trace (snd (drain sample_env 0 (events sample_env) None (start busy_pool))) ! 1
       = Wire (SessionCreated ''real'')
   \<and> trace (snd (drain sample_env 0 (events sample_env) None (start busy_pool))) ! 0
       = Rekeyed 0 ''real''"
proof -
  let ?st' = "snd (drain sample_env 0 (events sample_env) None (start busy_pool))"
  have rel: "reliable sample_env" by (simp add: reliable_def sample_env_simps)
  from drain_announces_session_per_init [OF drain_collapse [of sample_env 0 "events sample_env" None "start busy_pool"]]
  obtain new where n: "trace ?st' = trace (start busy_pool) @ new"
    "fst (drain sample_env 0 (events sample_env) None (start busy_pool)) = None \<or> reliable sample_env \<longrightarrow>
       new = drain_effects 0 (events sample_env)
     \<and> session_created_keys new = map session_id (filter is_init (consumed (events sample_env)))"
    "\<forall>i k. i < length new \<and> new ! i = Wire (SessionCreated k) \<longrightarrow>
                0 < i \<and> new ! (i - 1) = Rekeyed 0 k"
    by blast
  have tr: "trace ?st' = new" using n(1) by (simp add: start_def)
  from n(2) rel have full: "new = drain_effects 0 (events sample_env)"
    and keys: "session_created_keys new = map session_id (filter is_init (consumed (events sample_env)))"
    by blast+
  have k: "map session_id (filter is_init (consumed (events sample_env))) = [''real'']"
    by (simp add: sample_env_simps is_init_def init_message_def assistant_message_def result_message_def)
  have at1: "1 < length new \<and> new ! 1 = Wire (SessionCreated ''real'')"
    unfolding full
    by (simp add: sample_env_simps drain_effects_def message_effects_def is_init_def
        init_message_def assistant_message_def result_message_def)
  with n(3) have "new ! (1 - 1) = Rekeyed 0 ''real''" by blast
  then have at0: "new ! 0 = Rekeyed 0 ''real''" by simp
  show ?thesis using rel tr full keys k at1 at0 by simp
qed

subsection \<open>The whole handler\<close>

lemma wires_append: "wires (a @ b) = wires a @ wires b"
  by (induction a rule: wires.induct) simp_all

lemma chunk_text_append: "chunk_text (a @ b) = chunk_text a @ chunk_text b"
  by (induction a rule: chunk_text.induct) simp_all

lemma wires_chunks: "wires (map (\<lambda>t. Wire (TextChunk t)) ts) = map TextChunk ts"
  by (induction ts) simp_all

lemma chunk_text_chunks: "chunk_text (map TextChunk ts) = concat ts"
  by (induction ts) simp_all

lemma chunk_text_message_effects:
  "chunk_text (wires (message_effects r m)) = concat (message_texts m)"
  by (simp add: message_effects_def wires_append chunk_text_append wires_chunks chunk_text_chunks)

lemma chunk_text_drain_effects:
  "chunk_text (wires (drain_effects r ms)) = concat (concat (map message_texts (consumed ms)))"
  by (induction ms)
     (simp_all add: drain_effects_Cons wires_append chunk_text_append chunk_text_message_effects)

lemma plain_message_effects: "x \<in> set (message_effects r m) \<Longrightarrow> plain x"
  by (auto simp: message_effects_def split: if_splits)

lemma plain_drain_effects: "x \<in> set (drain_effects r ms) \<Longrightarrow> plain x"
  by (auto simp: drain_effects_def dest: plain_message_effects)

lemma plain_prefix_drain_effects: "prefix new (drain_effects r ms) \<Longrightarrow> x \<in> set new \<Longrightarrow> plain x"
  using plain_drain_effects set_mono_prefix by blast

lemma plain_filters:
  "\<forall>x\<in>set tr. plain x \<Longrightarrow>
     filter is_release tr = [] \<and> filter is_complete (wires tr) = [] \<and> filter is_error (wires tr) = []"
proof (induction tr)
  case Nil
  then show ?case by simp
next
  case (Cons x tr)
  then have p: "plain x" and rest: "\<forall>y\<in>set tr. plain y" by simp_all
  from p have "\<not> is_release x \<and> filter is_complete (wires [x]) = [] \<and> filter is_error (wires [x]) = []"
    by (cases x rule: plain.cases) simp_all
  with Cons.IH [OF rest] show ?case
    using wires_append [of "[x]" tr] by simp
qed

lemma respond_trace:
  assumes "respond e r st = (ex, st')"
  shows "ex \<noteq> Returned
       \<and> (\<exists>new. trace st' = trace st @ new
            \<and> (\<forall>err. ex = Threw err \<longrightarrow> prefix new (drain_effects r (events e)))
            \<and> (ex = Finished \<longrightarrow>
                 new = drain_effects r (events e)
                       @ [Wire (Complete (concat (concat (map message_texts (consumed (events e)))))
                                         (sessionId (heap (pool st') r)))]))"
proof (cases "stream_throws e")
  case (Some err)
  with assms show ?thesis by (intro conjI exI [of _ "[]"]) (auto simp: respond_def)
next
  case None
  note st_ok = None
  show ?thesis
  proof (cases "send_throws e")
    case (Some err)
    with assms st_ok show ?thesis by (intro conjI exI [of _ "[]"]) (auto simp: respond_def)
  next
    case None
    let ?st3 = "st\<lparr>fullResponse := [], realSessionId := sessionId (heap (pool st) r)\<rparr>"
    obtain r4 st4 where d: "drain e r (events e) (stream_end e) ?st3 = (r4, st4)"
      by (cases "drain e r (events e) (stream_end e) ?st3")
    from drain_trace [OF d] obtain new where n:
      "trace st4 = trace st @ new" "prefix new (drain_effects r (events e))"
      "realSessionId st4 = sessionId (heap (pool st4) r)"
      "r4 = None \<longrightarrow> new = drain_effects r (events e)
          \<and> fullResponse st4 = concat (concat (map message_texts (consumed (events e))))"
      by auto
    show ?thesis
    proof (cases r4)
      case (Some err)
      with assms st_ok None d have "ex = Threw err" "st' = st4" by (simp_all add: respond_def)
      with n show ?thesis by (intro conjI exI [of _ new]) auto
    next
      case r4: None
      obtain r5 st5 where w: "ws_send e (Complete (fullResponse st4) (realSessionId st4)) st4 = (r5, st5)"
        by (cases "ws_send e (Complete (fullResponse st4) (realSessionId st4)) st4")
      from ws_send_cases [OF w] show ?thesis
      proof
        assume ok: "r5 = None \<and> st5 = st4\<lparr>trace := trace st4 @ [Wire (Complete (fullResponse st4) (realSessionId st4))]\<rparr>"
        with assms st_ok None d r4 w have "ex = Finished" "st' = st5" by (simp_all add: respond_def)
        with n r4 ok show ?thesis
          by (intro conjI exI [of _ "new @ [Wire (Complete (fullResponse st4) (realSessionId st4))]"]) auto
      next
        assume f: "r5 \<noteq> None \<and> st5 = st4"
        then obtain err where "r5 = Some err" by auto
        with assms st_ok None d r4 w f have "ex = Threw err" "st' = st4" by (simp_all add: respond_def)
        with n show ?thesis by (intro conjI exI [of _ new]) auto
      qed
    qed
  qed
qed

lemma try_block_trace:
  assumes "try_block e (start s) = (ex, a, st)"
  shows "a = (case parsed e of
                Inl err \<Rightarrow> None
              | Inr req \<Rightarrow>
                  if falsy (req_prompt req) \<or> ws_throws e [] (Metadata ''Prompt received'') \<noteq> None
                  then None
                  else fst (getSession (req_sessionId req) (t_acquire e) (new_session e) s))"
    and "ex = Finished \<Longrightarrow>
           \<exists>r body. a = Some r
             \<and> trace st = body @ [Wire (Complete (chunk_text (wires body)) (sessionId (heap (pool st) r)))]
             \<and> (\<forall>x\<in>set body. plain x)
             \<and> chunk_text (wires body) = concat (concat (map message_texts (consumed (events e))))"
    and "ex = Returned \<Longrightarrow>
           a = None \<and> (\<exists>body m. trace st = body @ [Wire (ErrorMsg m)] \<and> (\<forall>x\<in>set body. plain x))"
    and "\<And>err. ex = Threw err \<Longrightarrow> \<forall>x\<in>set (trace st). plain x"
proof -
  let ?A = "a = (case parsed e of
                Inl err \<Rightarrow> None
              | Inr req \<Rightarrow>
                  if falsy (req_prompt req) \<or> ws_throws e [] (Metadata ''Prompt received'') \<noteq> None
                  then None
                  else fst (getSession (req_sessionId req) (t_acquire e) (new_session e) s))"
  let ?F = "ex = Finished \<longrightarrow>
           (\<exists>r body. a = Some r
             \<and> trace st = body @ [Wire (Complete (chunk_text (wires body)) (sessionId (heap (pool st) r)))]
             \<and> (\<forall>x\<in>set body. plain x)
             \<and> chunk_text (wires body) = concat (concat (map message_texts (consumed (events e)))))"
  let ?R = "ex = Returned \<longrightarrow>
           a = None \<and> (\<exists>body m. trace st = body @ [Wire (ErrorMsg m)] \<and> (\<forall>x\<in>set body. plain x))"
  let ?T = "\<forall>err. ex = Threw err \<longrightarrow> (\<forall>x\<in>set (trace st). plain x)"
  have all: "?A \<and> ?F \<and> ?R \<and> ?T"
  proof (cases "parsed e")
    case (Inl err)
    with assms show ?thesis by (auto simp: try_block_def start_def)
  next
    case (Inr req)
    show ?thesis
    proof (cases "falsy (req_prompt req)")
      case True
      with assms Inr show ?thesis
        by (auto simp: try_block_def start_def ws_send_def split: option.splits)
    next
      case False
      show ?thesis
      proof (cases "ws_throws e [] (Metadata ''Prompt received'')")
        case (Some err)
        with assms Inr False show ?thesis
          by (auto simp: try_block_def start_def ws_send_def)
      next
        case None
        let ?st1 = "(start s)\<lparr>trace := [Wire (Metadata ''Prompt received'')]\<rparr>"
        have s1: "ws_send e (Metadata ''Prompt received'') (start s) = (None, ?st1)"
          using None by (simp add: ws_send_def start_def)
        obtain g p where g: "getSession (req_sessionId req) (t_acquire e) (new_session e) s = (g, p)"
          by (cases "getSession (req_sessionId req) (t_acquire e) (new_session e) s")
        show ?thesis
        proof (cases g)
          case gN: None
          with assms Inr False s1 g None show ?thesis
            by (auto simp: try_block_def start_def ws_send_def split: option.splits)
        next
          case (Some r)
          obtain ex2 st2 where rs: "respond e r (?st1\<lparr>pool := p\<rparr>) = (ex2, st2)"
            by (cases "respond e r (?st1\<lparr>pool := p\<rparr>)")
          from assms Inr False s1 g Some rs have res: "ex = ex2" "a = Some r" "st = st2"
            by (simp_all add: try_block_def start_def)
          from respond_trace [OF rs] obtain new where n:
            "ex2 \<noteq> Returned" "trace st2 = [Wire (Metadata ''Prompt received'')] @ new"
            "\<forall>err. ex2 = Threw err \<longrightarrow> prefix new (drain_effects r (events e))"
            "ex2 = Finished \<longrightarrow>
                 new = drain_effects r (events e)
                       @ [Wire (Complete (concat (concat (map message_texts (consumed (events e)))))
                                         (sessionId (heap (pool st2) r)))]"
            by auto
          have A: ?A using res Inr False None g Some by simp
          have R: ?R using res n(1) by simp
          have T: ?T
          proof (intro allI impI)
            fix err assume "ex = Threw err"
            with res n(3) have "prefix new (drain_effects r (events e))" by blast
            then have "\<forall>x\<in>set new. plain x" using plain_prefix_drain_effects by blast
            with res n(2) show "\<forall>x\<in>set (trace st). plain x" by simp
          qed
          have F: ?F
          proof
            assume "ex = Finished"
            with res n(4) have new: "new = drain_effects r (events e)
                       @ [Wire (Complete (concat (concat (map message_texts (consumed (events e)))))
                                         (sessionId (heap (pool st) r)))]" by simp
            let ?body = "Wire (Metadata ''Prompt received'') # drain_effects r (events e)"
            have ct: "chunk_text (wires ?body) = concat (concat (map message_texts (consumed (events e))))"
              by (simp add: chunk_text_drain_effects)
            have pl: "\<forall>x\<in>set ?body. plain x" using plain_drain_effects by auto
            have tr: "trace st = ?body @ [Wire (Complete (chunk_text (wires ?body)) (sessionId (heap (pool st) r)))]"
              using res n(2) new ct by simp
            show "\<exists>r body. a = Some r
              \<and> trace st = body @ [Wire (Complete (chunk_text (wires body)) (sessionId (heap (pool st) r)))]
              \<and> (\<forall>x\<in>set body. plain x)
              \<and> chunk_text (wires body) = concat (concat (map message_texts (consumed (events e))))"
              using res(2) tr pl ct by blast
          qed
          show ?thesis using A F R T by blast
        qed
      qed
    qed
  qed
  show ?A using all by blast
  show "ex = Finished \<Longrightarrow>
           \<exists>r body. a = Some r
             \<and> trace st = body @ [Wire (Complete (chunk_text (wires body)) (sessionId (heap (pool st) r)))]
             \<and> (\<forall>x\<in>set body. plain x)
             \<and> chunk_text (wires body) = concat (concat (map message_texts (consumed (events e))))"
    using all by blast
  show "ex = Returned \<Longrightarrow>
           a = None \<and> (\<exists>body m. trace st = body @ [Wire (ErrorMsg m)] \<and> (\<forall>x\<in>set body. plain x))"
    using all by blast
  show "\<And>err. ex = Threw err \<Longrightarrow> \<forall>x\<in>set (trace st). plain x"
    using all by blast
qed

lemma handle_message_shape:
  assumes "handle_message e s = (ex, a, st)"
  shows "\<exists>body. (\<forall>x\<in>set body. plain x)
     \<and> (case ex of
          Finished \<Rightarrow>
            \<exists>r. a = Some r
              \<and> trace st = body @ [Wire (Complete (chunk_text (wires body)) (sessionId (heap (pool st) r))),
                                   Released r]
              \<and> chunk_text (wires body) = concat (concat (map message_texts (consumed (events e))))
        | Returned \<Rightarrow> a = None \<and> (\<exists>m. trace st = body @ [Wire (ErrorMsg m)])
        | Threw err \<Rightarrow>
            \<exists>sent. (sent = [] \<or> sent = [Wire (ErrorMsg err)]) \<and> (reliable e \<longrightarrow> sent \<noteq> [])
              \<and> trace st = body @ sent @ (case a of None \<Rightarrow> [] | Some r \<Rightarrow> [Released r]))"
proof -
  obtain st0 where tb: "try_block e (start s) = (ex, a, st0)"
    and st: "st = finally_block e a (catch_block e ex st0)"
    using assms by (auto simp: handle_message_def split: prod.splits)
  show ?thesis
  proof (cases ex)
    case Finished
    from try_block_trace(2) [OF tb Finished] obtain r body where b:
      "a = Some r"
      "trace st0 = body @ [Wire (Complete (chunk_text (wires body)) (sessionId (heap (pool st0) r)))]"
      "\<forall>x\<in>set body. plain x"
      "chunk_text (wires body) = concat (concat (map message_texts (consumed (events e))))"
      by blast
    have "sessionId (heap (pool st) r) = sessionId (heap (pool st0) r)"
      using st Finished b(1) by (simp add: finally_block_def catch_block_def releaseSession_def)
    then have "trace st = body @ [Wire (Complete (chunk_text (wires body)) (sessionId (heap (pool st) r))),
                                   Released r]"
      using st Finished b(1,2) by (simp add: finally_block_def catch_block_def)
    with b Finished show ?thesis by (intro exI [of _ body]) simp
  next
    case Returned
    from try_block_trace(3) [OF tb Returned] obtain body m where b:
      "a = None" "trace st0 = body @ [Wire (ErrorMsg m)]" "\<forall>x\<in>set body. plain x"
      by blast
    then have "trace st = body @ [Wire (ErrorMsg m)]"
      using st Returned by (simp add: finally_block_def catch_block_def)
    with b Returned show ?thesis by (intro exI [of _ body]) simp
  next
    case (Threw err)
    from try_block_trace(4) [OF tb Threw] have pl: "\<forall>x\<in>set (trace st0). plain x" .
    obtain r1 st1 where w: "ws_send e (ErrorMsg err) st0 = (r1, st1)"
      by (cases "ws_send e (ErrorMsg err) st0")
    have c: "catch_block e ex st0 = st1" using Threw w by (simp add: catch_block_def)
    from ws_send_cases [OF w]
    obtain sent where sent: "sent = [] \<or> sent = [Wire (ErrorMsg err)]" "trace st1 = trace st0 @ sent"
      "r1 = None \<longrightarrow> sent \<noteq> []"
      by (elim disjE) auto
    have rel: "reliable e \<longrightarrow> sent \<noteq> []"
      using sent(3) w by (auto simp: ws_send_reliable)
    have "trace st = trace st0 @ sent @ (case a of None \<Rightarrow> [] | Some r \<Rightarrow> [Released r])"
      using st c sent(2) by (simp add: finally_block_def split: option.splits)
    with pl sent(1) rel Threw show ?thesis
      by (intro exI [of _ "trace st0"]) auto
  qed
qed

lemma handle_message_released:
  assumes "handle_message e s = (ex, a, st)" and "a = Some r"
  shows "\<not> inUse (heap (pool st) r) \<and> lastUsed (heap (pool st) r) = t_release e"
  using assms
  by (auto simp: handle_message_def finally_block_def releaseSession_def split: prod.splits)

lemma handle_message_acquired:
  assumes "handle_message e s = (ex, a, st)"
  shows "a = (case parsed e of
                Inl err \<Rightarrow> None
              | Inr req \<Rightarrow>
                  if falsy (req_prompt req) \<or> ws_throws e [] (Metadata ''Prompt received'') \<noteq> None
                  then None
                  else fst (getSession (req_sessionId req) (t_acquire e) (new_session e) s))"
proof -
  obtain st0 where tb: "try_block e (start s) = (ex, a, st0)"
    using assms by (auto simp: handle_message_def split: prod.splits)
  from try_block_trace(1) [OF tb] show ?thesis .
qed

lemma filter_release_plain: "\<forall>x\<in>set tr. plain x \<Longrightarrow> filter is_release tr = []"
  using plain_filters by blast

lemma run_collapse: "handle_message e s =
    (fst (handle_message e s), fst (snd (handle_message e s)), snd (snd (handle_message e s)))"
  by simp

text \<open>
  C3. In every run of the handler \<open>assignedSession\<close> is what \<open>getSession\<close>
  returned, if the run got that far, and nothing otherwise. \<open>releaseSession\<close> is
  called exactly once when a session was assigned and never otherwise, whether the
  \<open>try\<close> block finished, returned early or threw; the release is the last thing
  the run does, and it leaves the entry free with \<open>lastUsed\<close> at the time of the
  release.
\<close>

theorem handle_message_releases_once:
  assumes "handle_message e s = (ex, a, st)"
  shows "a = (case parsed e of
                Inl err \<Rightarrow> None
              | Inr req \<Rightarrow>
                  if falsy (req_prompt req) \<or> ws_throws e [] (Metadata ''Prompt received'') \<noteq> None
                  then None
                  else fst (getSession (req_sessionId req) (t_acquire e) (new_session e) s))
       \<and> filter is_release (trace st) = (case a of None \<Rightarrow> [] | Some r \<Rightarrow> [Released r])
       \<and> (\<forall>r. a = Some r \<longrightarrow>
             last (trace st) = Released r
           \<and> \<not> inUse (heap (pool st) r)
           \<and> lastUsed (heap (pool st) r) = t_release e)"
proof -
  from handle_message_shape [OF assms] obtain body where pl: "\<forall>x\<in>set body. plain x"
    and sh: "(case ex of
          Finished \<Rightarrow>
            \<exists>r. a = Some r
              \<and> trace st = body @ [Wire (Complete (chunk_text (wires body)) (sessionId (heap (pool st) r))),
                                   Released r]
              \<and> chunk_text (wires body) = concat (concat (map message_texts (consumed (events e))))
        | Returned \<Rightarrow> a = None \<and> (\<exists>m. trace st = body @ [Wire (ErrorMsg m)])
        | Threw err \<Rightarrow>
            \<exists>sent. (sent = [] \<or> sent = [Wire (ErrorMsg err)]) \<and> (reliable e \<longrightarrow> sent \<noteq> [])
              \<and> trace st = body @ sent @ (case a of None \<Rightarrow> [] | Some r \<Rightarrow> [Released r]))"
    by blast
  note nr = filter_release_plain [OF pl]
  have tr: "filter is_release (trace st) = (case a of None \<Rightarrow> [] | Some r \<Rightarrow> [Released r])
          \<and> (\<forall>r. a = Some r \<longrightarrow> last (trace st) = Released r)"
  proof (cases ex)
    case Finished
    with sh nr show ?thesis by auto
  next
    case Returned
    with sh nr show ?thesis by auto
  next
    case (Threw err)
    with sh nr show ?thesis by (auto split: option.splits)
  qed
  show ?thesis
    using handle_message_acquired [OF assms] tr handle_message_released [OF assms] by blast
qed

theorem handle_message_releases_once_witness:
  "fst (handle_message failing_env warm_pool) = Threw ''boom''
   \<and> fst (snd (handle_message failing_env warm_pool)) = Some 0
   \<and> filter is_release (trace (snd (snd (handle_message failing_env warm_pool)))) = [Released 0]
   \<and> last (trace (snd (snd (handle_message failing_env warm_pool)))) = Released 0
   \<and> \<not> inUse (heap (pool (snd (snd (handle_message failing_env warm_pool)))) 0)
   \<and> lastUsed (heap (pool (snd (snd (handle_message failing_env warm_pool)))) 0) = 30"
proof -
  note T = handle_message_releases_once [OF run_collapse [of failing_env warm_pool]]
  note a = failing_run(2)
  have rel: "filter is_release (trace (snd (snd (handle_message failing_env warm_pool)))) = [Released 0]"
    using T [THEN conjunct2, THEN conjunct1] unfolding a by simp
  note R = T [THEN conjunct2, THEN conjunct2, THEN spec, of 0, THEN mp, OF a]
  show ?thesis
    using failing_run rel R by (simp add: failing_env_simps)
qed

subsection \<open>When the handler runs to its end\<close>

lemma drain_None:
  "drain e r ms fin st = (None, st') \<Longrightarrow> (\<exists>m\<in>set ms. msg_type m = ''result'') \<or> fin = None"
proof (induction ms arbitrary: st)
  case Nil
  then show ?case by simp
next
  case (Cons m ms)
  obtain r1 st1 where rm: "relay_message e r m st = (r1, st1)" by (cases "relay_message e r m st")
  show ?case
  proof (cases "msg_type m = ''result''")
    case True
    then show ?thesis by simp
  next
    case False
    with Cons.prems rm have "r1 = None" "drain e r ms fin st1 = (None, st')"
      by (auto split: option.splits)
    from Cons.IH [OF this(2)] show ?thesis by auto
  qed
qed

lemma respond_finishes:
  assumes "reliable e" and "stream_throws e = None" and "send_throws e = None"
      and "(\<exists>m\<in>set (events e). msg_type m = ''result'') \<or> stream_end e = None"
  shows "fst (respond e r st) = Finished"
proof -
  let ?st3 = "st\<lparr>fullResponse := [], realSessionId := sessionId (heap (pool st) r)\<rparr>"
  have "fst (drain e r (events e) (stream_end e) ?st3) = None"
    using drain_reliable [OF assms(1), of r "events e" "stream_end e" ?st3] assms(4) by auto
  then obtain st4 where d: "drain e r (events e) (stream_end e) ?st3 = (None, st4)"
    by (cases "drain e r (events e) (stream_end e) ?st3") simp
  show ?thesis
    using assms(2,3) d by (simp add: respond_def ws_send_reliable [OF assms(1)])
qed

lemma respond_finished_only:
  assumes "respond e r st = (Finished, st')"
  shows "stream_throws e = None \<and> send_throws e = None
       \<and> ((\<exists>m\<in>set (events e). msg_type m = ''result'') \<or> stream_end e = None)"
proof -
  let ?st3 = "st\<lparr>fullResponse := [], realSessionId := sessionId (heap (pool st) r)\<rparr>"
  from assms have a: "stream_throws e = None" "send_throws e = None"
    by (auto simp: respond_def split: option.splits)
  obtain r4 st4 where d: "drain e r (events e) (stream_end e) ?st3 = (r4, st4)"
    by (cases "drain e r (events e) (stream_end e) ?st3")
  with assms a have "r4 = None" by (auto simp: respond_def split: option.splits)
  with d have "drain e r (events e) (stream_end e) ?st3 = (None, st4)" by simp
  then have "(\<exists>m\<in>set (events e). msg_type m = ''result'') \<or> stream_end e = None"
    by (rule drain_None)
  with a show ?thesis by simp
qed

lemma handle_message_finishes:
  assumes "parsed e = Inr req" and "\<not> falsy (req_prompt req)" and "reliable e"
      and "fst (getSession (req_sessionId req) (t_acquire e) (new_session e) s) \<noteq> None"
      and "stream_throws e = None" and "send_throws e = None"
      and "(\<exists>m\<in>set (events e). msg_type m = ''result'') \<or> stream_end e = None"
  shows "fst (handle_message e s) = Finished"
proof -
  obtain r p where g: "getSession (req_sessionId req) (t_acquire e) (new_session e) s = (Some r, p)"
    using assms(4) by (cases "getSession (req_sessionId req) (t_acquire e) (new_session e) s") auto
  let ?st1 = "(start s)\<lparr>trace := [Wire (Metadata ''Prompt received'')], pool := p\<rparr>"
  have "fst (respond e r ?st1) = Finished"
    using assms(3,5,6,7) by (rule respond_finishes)
  then obtain st2 where rs: "respond e r ?st1 = (Finished, st2)"
    by (cases "respond e r ?st1") simp
  show ?thesis
    using assms(1,2) g rs
    by (simp add: handle_message_def try_block_def ws_send_reliable [OF assms(3)] start_def)
qed

lemma handle_message_finished_only:
  assumes "handle_message e s = (Finished, a, st)"
  shows "(\<exists>req. parsed e = Inr req \<and> \<not> falsy (req_prompt req)
            \<and> fst (getSession (req_sessionId req) (t_acquire e) (new_session e) s) \<noteq> None)
       \<and> stream_throws e = None \<and> send_throws e = None
       \<and> ((\<exists>m\<in>set (events e). msg_type m = ''result'') \<or> stream_end e = None)"
proof -
  obtain st0 where tb: "try_block e (start s) = (Finished, a, st0)"
    using assms by (auto simp: handle_message_def split: prod.splits)
  from tb obtain req where req: "parsed e = Inr req"
    by (cases "parsed e") (auto simp: try_block_def)
  from tb req have np: "\<not> falsy (req_prompt req)"
    by (auto simp: try_block_def ws_send_def split: if_splits option.splits)
  from tb req np have md: "ws_throws e [] (Metadata ''Prompt received'') = None"
    by (auto simp: try_block_def ws_send_def start_def split: option.splits)
  let ?st1 = "(start s)\<lparr>trace := [Wire (Metadata ''Prompt received'')]\<rparr>"
  have s1: "ws_send e (Metadata ''Prompt received'') (start s) = (None, ?st1)"
    using md by (simp add: ws_send_def start_def)
  obtain g p where g: "getSession (req_sessionId req) (t_acquire e) (new_session e) s = (g, p)"
    by (cases "getSession (req_sessionId req) (t_acquire e) (new_session e) s")
  have "g \<noteq> None"
  proof
    assume "g = None"
    with tb req np s1 g show False
      by (auto simp: try_block_def start_def ws_send_def split: option.splits)
  qed
  then obtain r where r: "g = Some r" by auto
  obtain ex2 st2 where rs: "respond e r (?st1\<lparr>pool := p\<rparr>) = (ex2, st2)"
    by (cases "respond e r (?st1\<lparr>pool := p\<rparr>)")
  from tb req np s1 g r rs have "ex2 = Finished"
    by (simp add: try_block_def start_def)
  with rs have "respond e r (?st1\<lparr>pool := p\<rparr>) = (Finished, st2)" by simp
  then have
    "stream_throws e = None \<and> send_throws e = None
       \<and> ((\<exists>m\<in>set (events e). msg_type m = ''result'') \<or> stream_end e = None)"
    by (rule respond_finished_only)
  with req np g r show ?thesis by auto
qed

lemma handle_message_wire_counts:
  assumes "handle_message e s = (ex, a, st)"
  shows "length (filter is_complete (wires (trace st))) = (if ex = Finished then 1 else 0)
       \<and> length (filter is_error (wires (trace st))) \<le> 1
       \<and> (ex = Finished \<longrightarrow>
             filter is_error (wires (trace st)) = []
           \<and> (\<exists>r. a = Some r
                 \<and> last (wires (trace st))
                     = Complete (chunk_text (wires (trace st))) (sessionId (heap (pool st) r)))
           \<and> chunk_text (wires (trace st)) = concat (concat (map message_texts (consumed (events e)))))
       \<and> (ex = Returned \<longrightarrow> length (filter is_error (wires (trace st))) = 1)
       \<and> (\<forall>err. ex = Threw err \<longrightarrow>
             (filter is_error (wires (trace st)) = [] \<or> filter is_error (wires (trace st)) = [ErrorMsg err])
           \<and> (reliable e \<longrightarrow> filter is_error (wires (trace st)) = [ErrorMsg err]))
       \<and> (filter is_error (wires (trace st)) \<noteq> [] \<longrightarrow>
             is_error (last (wires (trace st))) \<and> filter is_complete (wires (trace st)) = [])"
proof -
  from handle_message_shape [OF assms] obtain body where pl: "\<forall>x\<in>set body. plain x"
    and sh: "(case ex of
          Finished \<Rightarrow>
            \<exists>r. a = Some r
              \<and> trace st = body @ [Wire (Complete (chunk_text (wires body)) (sessionId (heap (pool st) r))),
                                   Released r]
              \<and> chunk_text (wires body) = concat (concat (map message_texts (consumed (events e))))
        | Returned \<Rightarrow> a = None \<and> (\<exists>m. trace st = body @ [Wire (ErrorMsg m)])
        | Threw err \<Rightarrow>
            \<exists>sent. (sent = [] \<or> sent = [Wire (ErrorMsg err)]) \<and> (reliable e \<longrightarrow> sent \<noteq> [])
              \<and> trace st = body @ sent @ (case a of None \<Rightarrow> [] | Some r \<Rightarrow> [Released r]))"
    by blast
  from plain_filters [OF pl] have nc: "filter is_complete (wires body) = []"
    and ne: "filter is_error (wires body) = []" by simp_all
  show ?thesis
  proof (cases ex)
    case Finished
    with sh obtain r where r: "a = Some r"
      "trace st = body @ [Wire (Complete (chunk_text (wires body)) (sessionId (heap (pool st) r))), Released r]"
      "chunk_text (wires body) = concat (concat (map message_texts (consumed (events e))))"
      by auto
    have w: "wires (trace st) = wires body @ [Complete (chunk_text (wires body)) (sessionId (heap (pool st) r))]"
      using r(2) by (simp add: wires_append)
    show ?thesis using Finished r(1,3) nc ne unfolding w
      by (simp add: chunk_text_append)
  next
    case Returned
    with sh obtain m where m: "a = None" "trace st = body @ [Wire (ErrorMsg m)]" by auto
    have w: "wires (trace st) = wires body @ [ErrorMsg m]"
      using m(2) by (simp add: wires_append)
    show ?thesis using Returned nc ne unfolding w by simp
  next
    case (Threw err)
    with sh obtain sent where sent: "sent = [] \<or> sent = [Wire (ErrorMsg err)]"
      "reliable e \<longrightarrow> sent \<noteq> []"
      "trace st = body @ sent @ (case a of None \<Rightarrow> [] | Some r \<Rightarrow> [Released r])"
      by auto
    have w: "wires (trace st) = wires body @ wires sent"
      using sent(3) by (simp add: wires_append split: option.splits)
    from sent(1) show ?thesis
    proof
      assume "sent = []"
      with sent(2) have "\<not> reliable e" by simp
      with \<open>sent = []\<close> Threw nc ne show ?thesis unfolding w by simp
    next
      assume "sent = [Wire (ErrorMsg err)]"
      with Threw nc ne show ?thesis unfolding w by simp
    qed
  qed
qed

text \<open>
  C5. A run ends in \<open>Finished\<close>, the \<open>try\<close> block having run to its last
  statement, only if the request parsed, had a prompt and got a session, neither
  \<open>session.stream()\<close> nor \<open>session.send\<close> threw, and the stream yielded a
  result message or ended without a throw; when in addition no \<open>ws.send\<close>
  throws, these conditions make the run end in \<open>Finished\<close>. A run sends
  \<open>complete\<close> exactly once when it ends in \<open>Finished\<close> and not at all
  otherwise. It is then the last wire message, it carries the concatenation of all
  text chunks sent, which is the text of the messages consumed, and the session id
  stored in the entry; no error message is sent. A run sends at most one error
  message: exactly one when the \<open>try\<close> block returns early, and the thrown error
  when it throws, unless that \<open>ws.send\<close> throws too. An error message is the last
  wire message of its run, and no \<open>complete\<close> is sent in that run.
\<close>

theorem handle_message_complete_or_error:
  assumes "handle_message e s = (ex, a, st)"
  shows "length (filter is_complete (wires (trace st))) = (if ex = Finished then 1 else 0)
       \<and> length (filter is_error (wires (trace st))) \<le> 1
       \<and> (ex = Finished \<longrightarrow>
             filter is_error (wires (trace st)) = []
           \<and> (\<exists>r. a = Some r
                 \<and> last (wires (trace st))
                     = Complete (chunk_text (wires (trace st))) (sessionId (heap (pool st) r)))
           \<and> chunk_text (wires (trace st)) = concat (concat (map message_texts (consumed (events e)))))
       \<and> (ex = Returned \<longrightarrow> length (filter is_error (wires (trace st))) = 1)
       \<and> (\<forall>err. ex = Threw err \<longrightarrow>
             (filter is_error (wires (trace st)) = [] \<or> filter is_error (wires (trace st)) = [ErrorMsg err])
           \<and> (reliable e \<longrightarrow> filter is_error (wires (trace st)) = [ErrorMsg err]))
       \<and> (filter is_error (wires (trace st)) \<noteq> [] \<longrightarrow>
             is_error (last (wires (trace st))) \<and> filter is_complete (wires (trace st)) = [])
       \<and> (\<forall>req. parsed e = Inr req \<and> \<not> falsy (req_prompt req) \<and> reliable e
               \<and> fst (getSession (req_sessionId req) (t_acquire e) (new_session e) s) \<noteq> None
               \<and> stream_throws e = None \<and> send_throws e = None
               \<and> ((\<exists>m\<in>set (events e). msg_type m = ''result'') \<or> stream_end e = None)
             \<longrightarrow> ex = Finished)
       \<and> (ex = Finished \<longrightarrow>
             (\<exists>req. parsed e = Inr req \<and> \<not> falsy (req_prompt req)
                \<and> fst (getSession (req_sessionId req) (t_acquire e) (new_session e) s) \<noteq> None)
           \<and> stream_throws e = None \<and> send_throws e = None
           \<and> ((\<exists>m\<in>set (events e). msg_type m = ''result'') \<or> stream_end e = None))"
proof -
  note W = handle_message_wire_counts [OF assms]
  have ex: "ex = fst (handle_message e s)" using assms by simp
  have up: "\<forall>req. parsed e = Inr req \<and> \<not> falsy (req_prompt req) \<and> reliable e
               \<and> fst (getSession (req_sessionId req) (t_acquire e) (new_session e) s) \<noteq> None
               \<and> stream_throws e = None \<and> send_throws e = None
               \<and> ((\<exists>m\<in>set (events e). msg_type m = ''result'') \<or> stream_end e = None)
             \<longrightarrow> ex = Finished"
    unfolding ex using handle_message_finishes [of e _ s] by blast
  have down: "ex = Finished \<longrightarrow>
             (\<exists>req. parsed e = Inr req \<and> \<not> falsy (req_prompt req)
                \<and> fst (getSession (req_sessionId req) (t_acquire e) (new_session e) s) \<noteq> None)
           \<and> stream_throws e = None \<and> send_throws e = None
           \<and> ((\<exists>m\<in>set (events e). msg_type m = ''result'') \<or> stream_end e = None)"
  proof
    assume "ex = Finished"
    with assms have "handle_message e s = (Finished, a, st)" by simp
    then show "(\<exists>req. parsed e = Inr req \<and> \<not> falsy (req_prompt req)
                \<and> fst (getSession (req_sessionId req) (t_acquire e) (new_session e) s) \<noteq> None)
           \<and> stream_throws e = None \<and> send_throws e = None
           \<and> ((\<exists>m\<in>set (events e). msg_type m = ''result'') \<or> stream_end e = None)"
      by (rule handle_message_finished_only)
  qed
  show ?thesis
    apply (intro conjI)
           apply (rule W [THEN conjunct1])
          apply (rule W [THEN conjunct2, THEN conjunct1])
         apply (rule W [THEN conjunct2, THEN conjunct2, THEN conjunct1])
        apply (rule W [THEN conjunct2, THEN conjunct2, THEN conjunct2, THEN conjunct1])
       apply (rule W [THEN conjunct2, THEN conjunct2, THEN conjunct2, THEN conjunct2, THEN conjunct1])
      apply (rule W [THEN conjunct2, THEN conjunct2, THEN conjunct2, THEN conjunct2, THEN conjunct2])
     apply (rule up)
    apply (rule down)
    done
qed

theorem handle_message_complete_or_error_witness:
  "parsed sample_env = Inr \<lparr>req_prompt = Some ''hi'', req_sessionId = None\<rparr>
   \<and> \<not> falsy (Some ''hi'') \<and> reliable sample_env
   \<and> fst (getSession None 20 creation_failed warm_pool) = Some 0
   \<and> stream_throws sample_env = None \<and> send_throws sample_env = None
   \<and> msg_type result_message = ''result'' \<and> result_message \<in> set (events sample_env)
   \<and> fst (handle_message sample_env warm_pool) = Finished
   \<and> length (filter is_complete (wires (trace (snd (snd (handle_message sample_env warm_pool)))))) = 1
   \<and> filter is_error (wires (trace (snd (snd (handle_message sample_env warm_pool))))) = []
   \<and> chunk_text (wires (trace (snd (snd (handle_message sample_env warm_pool))))) = ''abcd''
   \<and> last (wires (trace (snd (snd (handle_message sample_env warm_pool))))) = Complete ''abcd'' ''real''
   \<and> fst (handle_message failing_env warm_pool) = Threw ''boom''
   \<and> reliable failing_env
   \<and> length (filter is_complete (wires (trace (snd (snd (handle_message failing_env warm_pool)))))) = 0
   \<and> filter is_error (wires (trace (snd (snd (handle_message failing_env warm_pool))))) = [ErrorMsg ''boom'']"
proof -
  note S = handle_message_complete_or_error [OF run_collapse [of sample_env warm_pool]]
  note F = handle_message_complete_or_error [OF run_collapse [of failing_env warm_pool]]
  have inp: "parsed sample_env = Inr \<lparr>req_prompt = Some ''hi'', req_sessionId = None\<rparr>"
    "\<not> falsy (Some ''hi'')" "reliable sample_env"
    "fst (getSession None 20 creation_failed warm_pool) = Some 0"
    "stream_throws sample_env = None" "send_throws sample_env = None"
    "msg_type result_message = ''result''" "result_message \<in> set (events sample_env)"
    by (simp_all add: sample_env_simps falsy_def reliable_def result_message_def
        getSession_def reusable_def warm_pool_simps prewarmed_def)
  have pre: "parsed sample_env = Inr \<lparr>req_prompt = Some ''hi'', req_sessionId = None\<rparr>
       \<and> \<not> falsy (req_prompt \<lparr>req_prompt = Some ''hi'', req_sessionId = None\<rparr>)
       \<and> reliable sample_env
       \<and> fst (getSession (req_sessionId \<lparr>req_prompt = Some ''hi'', req_sessionId = None\<rparr>)
                (t_acquire sample_env) (new_session sample_env) warm_pool) \<noteq> None
       \<and> stream_throws sample_env = None \<and> send_throws sample_env = None
       \<and> ((\<exists>m\<in>set (events sample_env). msg_type m = ''result'') \<or> stream_end sample_env = None)"
    using inp by (auto simp: sample_env_simps)
  note finished = S [THEN conjunct2, THEN conjunct2, THEN conjunct2, THEN conjunct2, THEN conjunct2,
                     THEN conjunct2, THEN conjunct1, THEN spec, THEN mp, OF pre]
  have thr: "fst (handle_message failing_env warm_pool) = Threw ''boom''" by (rule failing_run(1))
  have rel: "reliable failing_env" by (simp add: reliable_def failing_env_simps)
  have key: "sessionId (heap (pool (snd (snd (handle_message sample_env warm_pool)))) 0) = ''real''"
    by (simp add: run_defs sample_env_simps warm_pool_simps)
  have texts: "concat (concat (map message_texts (consumed (events sample_env)))) = ''abcd''"
    by (simp add: sample_env_simps message_texts_def init_message_def assistant_message_def result_message_def)
  have s1: "length (filter is_complete (wires (trace (snd (snd (handle_message sample_env warm_pool)))))) = 1"
    using S [THEN conjunct1] finished by simp
  note S3 = S [THEN conjunct2, THEN conjunct2, THEN conjunct1, THEN mp, OF finished]
  have s2: "chunk_text (wires (trace (snd (snd (handle_message sample_env warm_pool))))) = ''abcd''"
    using S3 texts by simp
  have s3: "last (wires (trace (snd (snd (handle_message sample_env warm_pool))))) = Complete ''abcd'' ''real''"
    using S3 s2 key sample_run(2) by auto
  have f1: "length (filter is_complete (wires (trace (snd (snd (handle_message failing_env warm_pool)))))) = 0"
    using F [THEN conjunct1] thr by simp
  note F5 = F [THEN conjunct2, THEN conjunct2, THEN conjunct2, THEN conjunct2, THEN conjunct1,
               THEN spec, of "''boom''", THEN mp, OF thr]
  have f2: "filter is_error (wires (trace (snd (snd (handle_message failing_env warm_pool))))) = [ErrorMsg ''boom'']"
    using F5 rel by simp
  show ?thesis
    using inp finished s1 S3 s2 s3 thr rel f1 f2 by simp
qed

text \<open>
  C8. When no entry is free, \<open>getSession\<close> creates a session: if the creation
  succeeds, the new object is stored under its \<open>prewarm-\<close> key in \<open>sessionPool\<close>
  and in \<open>sessionKeyMap\<close> and is returned; if it throws, the result is \<open>null\<close>
  and the pool is unchanged. \<open>getSession\<close> returns \<open>null\<close> only when no entry is
  free and the creation throws. The handler answers \<open>null\<close> with the error message
  \<open>Failed to get session\<close> and returns.
\<close>

theorem getSession_creates_when_none_free:
  "((\<forall>(k, r)\<in>set (sessionPool s). inUse (heap s r)) \<longrightarrow>
      (\<forall>h. created_handle c = Some h \<longrightarrow>
         fst (getSession u now c s) = Some (nextRef s)
       \<and> session (heap (snd (getSession u now c s)) (nextRef s)) = h
       \<and> sessionId (heap (snd (getSession u now c s)) (nextRef s)) = ''prewarm-'' @ uuid c
       \<and> map_of (sessionPool (snd (getSession u now c s))) (''prewarm-'' @ uuid c) = Some (nextRef s)
       \<and> sessionKeyMap (snd (getSession u now c s)) (nextRef s) = Some (''prewarm-'' @ uuid c))
    \<and> (created_handle c = None \<longrightarrow> getSession u now c s = (None, s)))
   \<and> (fst (getSession u now c s) = None \<longleftrightarrow>
        created_handle c = None \<and> (\<forall>(k, r)\<in>set (sessionPool s). inUse (heap s r)))
   \<and> (\<forall>req. parsed e = Inr req \<and> \<not> falsy (req_prompt req) \<and> reliable e
           \<and> fst (getSession (req_sessionId req) (t_acquire e) (new_session e) s) = None \<longrightarrow>
        handle_message e s =
          (Returned, None,
           (start s)\<lparr>trace := [Wire (Metadata ''Prompt received''),
                                Wire (ErrorMsg ''Failed to get session'')]\<rparr>))"
proof -
  have a: "(\<forall>(k, r)\<in>set (sessionPool s). inUse (heap s r)) \<longrightarrow>
      (\<forall>h. created_handle c = Some h \<longrightarrow>
         fst (getSession u now c s) = Some (nextRef s)
       \<and> session (heap (snd (getSession u now c s)) (nextRef s)) = h
       \<and> sessionId (heap (snd (getSession u now c s)) (nextRef s)) = ''prewarm-'' @ uuid c
       \<and> map_of (sessionPool (snd (getSession u now c s))) (''prewarm-'' @ uuid c) = Some (nextRef s)
       \<and> sessionKeyMap (snd (getSession u now c s)) (nextRef s) = Some (''prewarm-'' @ uuid c))
    \<and> (created_handle c = None \<longrightarrow> getSession u now c s = (None, s))"
    by (auto simp: getSession_none_free prewarmSession_def update_conv')
  have b: "\<forall>req. parsed e = Inr req \<and> \<not> falsy (req_prompt req) \<and> reliable e
           \<and> fst (getSession (req_sessionId req) (t_acquire e) (new_session e) s) = None \<longrightarrow>
        handle_message e s =
          (Returned, None,
           (start s)\<lparr>trace := [Wire (Metadata ''Prompt received''),
                                Wire (ErrorMsg ''Failed to get session'')]\<rparr>)"
  proof (intro allI impI)
    fix req
    assume h: "parsed e = Inr req \<and> \<not> falsy (req_prompt req) \<and> reliable e
           \<and> fst (getSession (req_sessionId req) (t_acquire e) (new_session e) s) = None"
    then have "created_handle (new_session e) = None \<and> (\<forall>(k, r)\<in>set (sessionPool s). inUse (heap s r))"
      by (simp add: getSession_None_iff)
    then have g: "getSession (req_sessionId req) (t_acquire e) (new_session e) s = (None, s)"
      by (simp add: getSession_none_free prewarmSession_def)
    from h have rel: "reliable e" by simp
    show "handle_message e s =
          (Returned, None,
           (start s)\<lparr>trace := [Wire (Metadata ''Prompt received''),
                                Wire (ErrorMsg ''Failed to get session'')]\<rparr>)"
      using h g
      by (simp add: handle_message_def try_block_def ws_send_reliable [OF rel] start_def
          catch_block_def finally_block_def)
  qed
  show ?thesis using a getSession_None_iff [of u now c s] b by blast
qed

theorem getSession_creates_when_none_free_witness:
  "(\<forall>(k, r)\<in>set (sessionPool full_pool). inUse (heap full_pool r)) = True
   \<and> fst (getSession None 40 (creation_ok ''c'' 3 40) full_pool) = Some 2
   \<and> session (heap (snd (getSession None 40 (creation_ok ''c'' 3 40) full_pool)) 2) = 3
   \<and> map_of (sessionPool (snd (getSession None 40 (creation_ok ''c'' 3 40) full_pool))) ''prewarm-c'' = Some 2
   \<and> getSession None 20 creation_failed full_pool = (None, full_pool)
   \<and> handle_message sample_env full_pool =
        (Returned, None,
         (start full_pool)\<lparr>trace := [Wire (Metadata ''Prompt received''),
                                      Wire (ErrorMsg ''Failed to get session'')]\<rparr>)"
proof -
  have busy: "\<forall>(k, r)\<in>set (sessionPool full_pool). inUse (heap full_pool r)"
    by (simp add: full_pool_simps prewarmed_def)
  have ok: "created_handle (creation_ok ''c'' 3 40) = Some 3" "uuid (creation_ok ''c'' 3 40) = ''c''"
    by (simp_all add: creation_ok_def)
  have fail: "created_handle creation_failed = None" by (simp add: creation_failed_def)
  note A = getSession_creates_when_none_free [of full_pool "creation_ok ''c'' 3 40" None 40 sample_env,
               THEN conjunct1, THEN mp, OF busy, THEN conjunct1, THEN spec, of 3, THEN mp, OF ok(1)]
  note B = getSession_creates_when_none_free [of full_pool creation_failed None 20 sample_env,
               THEN conjunct1, THEN mp, OF busy, THEN conjunct2, THEN mp, OF fail]
  have none: "fst (getSession (req_sessionId \<lparr>req_prompt = Some ''hi'', req_sessionId = None\<rparr>)
                    (t_acquire sample_env) (new_session sample_env) full_pool) = None"
    using B by (simp add: sample_env_simps)
  have pre: "parsed sample_env = Inr \<lparr>req_prompt = Some ''hi'', req_sessionId = None\<rparr>
       \<and> \<not> falsy (req_prompt \<lparr>req_prompt = Some ''hi'', req_sessionId = None\<rparr>)
       \<and> reliable sample_env
       \<and> fst (getSession (req_sessionId \<lparr>req_prompt = Some ''hi'', req_sessionId = None\<rparr>)
                    (t_acquire sample_env) (new_session sample_env) full_pool) = None"
    using none by (simp add: sample_env_simps falsy_def reliable_def)
  note C = getSession_creates_when_none_free [of full_pool creation_failed None 40 sample_env,
               THEN conjunct2, THEN conjunct2, THEN spec, THEN mp, OF pre]
  show ?thesis
    using busy A B C by (simp add: full_pool_simps ok)
qed

end
